theory Spec2Isabelle
  imports Main "HOL-Library.Word"
begin

section \<open>The ozterm terminal core (ozterm.c) as HOL functions\<close>

text \<open>
  The terminal is a C struct that every entry point mutates in place; here each function
  takes the terminal and returns the updated one. Bytes (\<open>uint8_t\<close>, \<open>char\<close>) are
  \<open>8 word\<close>. C \<open>int\<close> values are \<open>int\<close>; the conversions to \<open>int16_t\<close> that the
  parameter lists of ozterm.c declare are written out (\<open>int16_t\<close> below). The header
  ozterm.h, which declares the structs, is not among the sources, so the struct fields
  hold plain integers and the fields are the ones ozterm.c reads and writes.
\<close>

type_synonym byte = "8 word"

subsection \<open>C arithmetic and loops\<close>

definition int16_t :: "int \<Rightarrow> int" where
  "int16_t x = (x + 32768) mod 65536 - 32768"

text \<open>C's \<open>%\<close> truncates towards zero.\<close>

definition c_rem :: "int \<Rightarrow> int \<Rightarrow> int" where
  "c_rem a b = a - b * (sgn a * sgn b * (\<bar>a\<bar> div \<bar>b\<bar>))"

text \<open>\<open>for (i = a; i < n; ++i) body\<close> and \<open>for (i = a; i >= n; --i) body\<close>.\<close>

function for_up :: "int \<Rightarrow> int \<Rightarrow> (int \<Rightarrow> 's \<Rightarrow> 's) \<Rightarrow> 's \<Rightarrow> 's" where
  "for_up i n body s = (if i < n then for_up (i + 1) n body (body i s) else s)"
  by pat_completeness auto
termination
  by (relation "measure (\<lambda>(i, n, body, s). nat (n - i))") auto

function for_down :: "int \<Rightarrow> int \<Rightarrow> (int \<Rightarrow> 's \<Rightarrow> 's) \<Rightarrow> 's \<Rightarrow> 's" where
  "for_down i n body s = (if n \<le> i then for_down (i - 1) n body (body i s) else s)"
  by pat_completeness auto
termination
  by (relation "measure (\<lambda>(i, n, body, s). nat (i - n + 1))") auto

declare for_up.simps [simp del]
declare for_down.simps [simp del]

text \<open>\<open>isgraph\<close> and \<open>isspace\<close> of ctype.h in the C locale.\<close>

definition isgraph :: "byte \<Rightarrow> bool" where
  "isgraph c = (0x21 \<le> c \<and> c \<le> 0x7E)"

definition isspace :: "byte \<Rightarrow> bool" where
  "isspace c = (c = 0x20 \<or> (0x09 \<le> c \<and> c \<le> 0x0D))"

definition isdigit :: "byte \<Rightarrow> bool" where
  "isdigit c = (0x30 \<le> c \<and> c \<le> 0x39)"

definition toupper :: "byte \<Rightarrow> byte" where
  "toupper c = (if 0x61 \<le> c \<and> c \<le> 0x7A then c - 0x20 else c)"

subsection \<open>Cells, screens, the terminal\<close>

record OztermCell =
  character :: byte
  color :: byte
  protected :: bool

text \<open>
  A screen's \<open>buffer\<close> points to \<open>row_count * column_count\<close> cells. It is modelled as the
  memory behind the pointer, addressed by cell offset: the offsets from 0 up to
  \<open>row_count * column_count\<close> are the screen, row-major; the others lie outside the
  allocation, where C leaves an access undefined.
\<close>

type_synonym cells = "int \<Rightarrow> OztermCell"

record OztermScreen =
  buffer :: cells
  cursor_column :: int
  cursor_row :: int
  attr_protected :: bool

text \<open>The pointer \<open>screen_active\<close> aliases one of the two screens.\<close>

datatype screen_ref = Main_Screen | Alternative_Screen

text \<open>
  The host callbacks are function pointers that may be NULL. A callback field says whether
  one is installed, and every call of an installed callback is appended to \<open>host_events\<close>
  with its arguments; so is the diagnostic that \<open>ozterm_put_character\<close> prints for a CSI
  sequence it does not handle.
\<close>

datatype host_event =
    Write_To_Master "byte list"
  | Refresh
  | Set_Character int int byte
  | Move_Cursor int int int int
  | Unhandled_CSI bool "byte list" byte

record Ozterm =
  screen_main :: OztermScreen
  screen_alternative :: OztermScreen
  screen_active :: screen_ref
  alternative_active :: bool
  saved_cursor_column :: int
  saved_cursor_row :: int
  column_count :: int
  row_count :: int
  scroll_top :: int
  scroll_bottom :: int
  terminal_color :: byte  \<comment> \<open>the field \<open>color\<close> of the terminal\<close>
  scrollback :: "int \<Rightarrow> cells"
  scrollback_head :: int
  scrollback_count :: int
  scroll_offset :: int
  write_to_master_function :: bool
  refresh_function :: bool
  set_character_function :: bool
  move_cursor_function :: bool
  host_events :: "host_event list"

text \<open>
  Modelled from the spec: the macro \<open>SCROLLBACK_LINES\<close> of ozterm.h, which is not among
  the sources; the spec gives the capacity of the scrollback ring as 1000 rows.
\<close>

definition SCROLLBACK_LINES :: int where
  "SCROLLBACK_LINES = 1000"

text \<open>Reading and writing through \<open>terminal->screen_active\<close>.\<close>

definition active :: "Ozterm \<Rightarrow> OztermScreen" where
  "active terminal =
     (case screen_active terminal of
        Main_Screen \<Rightarrow> screen_main terminal
      | Alternative_Screen \<Rightarrow> screen_alternative terminal)"

definition map_active :: "(OztermScreen \<Rightarrow> OztermScreen) \<Rightarrow> Ozterm \<Rightarrow> Ozterm" where
  "map_active f terminal =
     (case screen_active terminal of
        Main_Screen \<Rightarrow> terminal\<lparr>screen_main := f (screen_main terminal)\<rparr>
      | Alternative_Screen \<Rightarrow> terminal\<lparr>screen_alternative := f (screen_alternative terminal)\<rparr>)"

definition call_refresh :: "Ozterm \<Rightarrow> Ozterm" where
  "call_refresh terminal =
     (if refresh_function terminal
      then terminal\<lparr>host_events := host_events terminal @ [Refresh]\<rparr>
      else terminal)"

definition write_to_master :: "Ozterm \<Rightarrow> byte list \<Rightarrow> Ozterm" where
  "write_to_master terminal data =
     (if write_to_master_function terminal \<and> 0 < length data
      then terminal\<lparr>host_events := host_events terminal @ [Write_To_Master data]\<rparr>
      else terminal)"

subsection \<open>Cursor\<close>

definition ozterm_move_cursor :: "Ozterm \<Rightarrow> int \<Rightarrow> int \<Rightarrow> Ozterm" where
  "ozterm_move_cursor terminal row0 column0 =
     (let row = int16_t row0;
          column = int16_t column0;
          row = (if row \<ge> row_count terminal then int16_t (row_count terminal - 1) else row);
          row = (if row < 0 then 0 else row);
          column = (if column \<ge> column_count terminal
                    then int16_t (column_count terminal - 1) else column);
          column = (if column < 0 then 0 else column);
          terminal =
            (if move_cursor_function terminal
             then terminal\<lparr>host_events := host_events terminal @
                    [Move_Cursor (cursor_row (active terminal))
                       (cursor_column (active terminal)) row column]\<rparr>
             else terminal)
      in map_active (\<lambda>s. s\<lparr>cursor_row := row, cursor_column := column\<rparr>) terminal)"

definition ozterm_move_cursor_diff :: "Ozterm \<Rightarrow> int \<Rightarrow> int \<Rightarrow> Ozterm" where
  "ozterm_move_cursor_diff terminal row column =
     ozterm_move_cursor terminal
       (cursor_row (active terminal) + int16_t row)
       (cursor_column (active terminal) + int16_t column)"

subsection \<open>Scrolling and line operations\<close>

definition ozterm_scroll_up_region :: "Ozterm \<Rightarrow> int \<Rightarrow> Ozterm" where
  "ozterm_scroll_up_region terminal lines0 =
     (let lines = (if lines0 \<le> 0 then 1 else lines0);
          rtop = scroll_top terminal;
          rbottom = scroll_bottom terminal;
          columns = column_count terminal;
          buf = buffer (active terminal);
          lines = (if lines > rbottom - rtop + 1 then rbottom - rtop + 1 else lines);
          buf = for_up rtop (rbottom - lines + 1) (\<lambda>y.
                  for_up 0 columns (\<lambda>x buf.
                    let from = (y + lines) * columns + x;
                        to = y * columns + x
                    in if \<not> protected (buf to) then buf(to := buf from) else buf)) buf;
          buf = for_up (rbottom - lines + 1) (rbottom + 1) (\<lambda>row.
                  for_up 0 columns (\<lambda>col buf.
                    let idx = row * columns + col
                    in buf(idx := (buf idx)\<lparr>character := 0x20,
                         color := terminal_color terminal, protected := False\<rparr>))) buf
      in call_refresh (map_active (\<lambda>s. s\<lparr>buffer := buf\<rparr>) terminal))"

text \<open>
  \<open>ozterm_scroll_up\<close>: each of the \<open>lines\<close> rows from \<open>scroll_top\<close> on is copied
  (\<open>memcpy\<close> of \<open>column_count\<close> cells) to the ring slot at \<open>scrollback_head\<close>, then the
  region is scrolled.
\<close>

definition ozterm_scroll_up :: "Ozterm \<Rightarrow> int \<Rightarrow> Ozterm" where
  "ozterm_scroll_up terminal lines0 =
     (let lines = (if lines0 \<le> 0 then 1 else lines0);
          terminal = for_up 0 lines (\<lambda>l terminal.
            let rtop = scroll_top terminal + l;
                src = buffer (active terminal);
                slot = scrollback terminal (scrollback_head terminal);
                terminal = terminal\<lparr>scrollback := (scrollback terminal)
                  (scrollback_head terminal :=
                     (\<lambda>x. if 0 \<le> x \<and> x < column_count terminal
                          then src (rtop * column_count terminal + x) else slot x))\<rparr>;
                terminal = terminal\<lparr>scrollback_head :=
                  c_rem (scrollback_head terminal + 1) SCROLLBACK_LINES\<rparr>
            in if scrollback_count terminal < SCROLLBACK_LINES
               then terminal\<lparr>scrollback_count := scrollback_count terminal + 1\<rparr>
               else terminal) terminal
      in ozterm_scroll_up_region terminal lines)"

definition ozterm_scroll_down_region :: "Ozterm \<Rightarrow> int \<Rightarrow> Ozterm" where
  "ozterm_scroll_down_region terminal lines0 =
     (let lines = (if lines0 \<le> 0 then 1 else lines0);
          rtop = scroll_top terminal;
          rbottom = scroll_bottom terminal;
          columns = column_count terminal;
          buf = buffer (active terminal);
          lines = (if lines > rbottom - rtop + 1 then rbottom - rtop + 1 else lines);
          buf = for_down rbottom (rtop + lines) (\<lambda>row.
                  for_up 0 columns (\<lambda>col buf.
                    let to = row * columns + col;
                        from = (row - lines) * columns + col
                    in if \<not> protected (buf to) then buf(to := buf from) else buf)) buf;
          buf = for_up rtop (rtop + lines) (\<lambda>row.
                  for_up 0 columns (\<lambda>col buf.
                    let idx = row * columns + col
                    in buf(idx := (buf idx)\<lparr>character := 0x20,
                         color := terminal_color terminal, protected := False\<rparr>))) buf
      in call_refresh (map_active (\<lambda>s. s\<lparr>buffer := buf\<rparr>) terminal))"

definition ozterm_insert_lines :: "Ozterm \<Rightarrow> int \<Rightarrow> int \<Rightarrow> Ozterm" where
  "ozterm_insert_lines terminal from_row count0 =
     (if count0 \<le> 0 then terminal
      else
        let rtop = from_row;
            rbottom = scroll_bottom terminal;
            columns = column_count terminal
        in if rtop < scroll_top terminal \<or> rtop > rbottom then terminal
           else
             let count = (if count0 > rbottom - rtop + 1 then rbottom - rtop + 1 else count0);
                 buf = buffer (active terminal);
                 buf = for_down rbottom (rtop + count) (\<lambda>row.
                         for_up 0 columns (\<lambda>col buf.
                           let to = row * columns + col;
                               from = (row - count) * columns + col
                           in if \<not> protected (buf to) then buf(to := buf from) else buf)) buf;
                 buf = for_up rtop (rtop + count) (\<lambda>row.
                         for_up 0 columns (\<lambda>col buf.
                           let idx = row * columns + col
                           in buf(idx := (buf idx)\<lparr>character := 0x20,
                                color := terminal_color terminal, protected := False\<rparr>))) buf
             in call_refresh (map_active (\<lambda>s. s\<lparr>buffer := buf\<rparr>) terminal))"

definition ozterm_delete_lines :: "Ozterm \<Rightarrow> int \<Rightarrow> int \<Rightarrow> Ozterm" where
  "ozterm_delete_lines terminal from_row count0 =
     (if count0 \<le> 0 then terminal
      else
        let rtop = from_row;
            rbottom = scroll_bottom terminal;
            columns = column_count terminal
        in if rtop < scroll_top terminal \<or> rtop > rbottom then terminal
           else
             let count = (if count0 > rbottom - rtop + 1 then rbottom - rtop + 1 else count0);
                 buf = buffer (active terminal);
                 buf = for_up rtop (rbottom - count + 1) (\<lambda>row.
                         for_up 0 columns (\<lambda>col buf.
                           let to = row * columns + col;
                               from = (row + count) * columns + col
                           in if \<not> protected (buf to) then buf(to := buf from) else buf)) buf;
                 buf = for_up (rbottom - count + 1) (rbottom + 1) (\<lambda>row.
                         for_up 0 columns (\<lambda>col buf.
                           let idx = row * columns + col
                           in buf(idx := (buf idx)\<lparr>character := 0x20,
                                color := terminal_color terminal, protected := False\<rparr>))) buf
             in call_refresh (map_active (\<lambda>s. s\<lparr>buffer := buf\<rparr>) terminal))"

definition ozterm_clear :: "Ozterm \<Rightarrow> Ozterm" where
  "ozterm_clear terminal =
     (let video = buffer (active terminal);
          video = for_up 0 (row_count terminal * column_count terminal) (\<lambda>i video.
                    video(i := (video i)\<lparr>character := 0x20, protected := False,
                      color := terminal_color terminal\<rparr>)) video
      in ozterm_move_cursor (map_active (\<lambda>s. s\<lparr>buffer := video\<rparr>) terminal) 0 0)"

subsection \<open>Inserting and deleting characters in the cursor's row\<close>

text \<open>
  \<open>video\<close> is the buffer advanced to the cursor's row, so \<open>video[i]\<close> is the cell at
  offset \<open>base + i\<close>. The two \<open>while\<close> loops that look for an unprotected source:
\<close>

function skip_protected_left :: "cells \<Rightarrow> int \<Rightarrow> int \<Rightarrow> int \<Rightarrow> int" where
  "skip_protected_left buf base x src =
     (if src \<ge> x \<and> protected (buf (base + src))
      then skip_protected_left buf base x (src - 1) else src)"
  by pat_completeness auto
termination
  by (relation "measure (\<lambda>(buf, base, x, src). nat (src - x + 1))") auto

function skip_protected_right :: "cells \<Rightarrow> int \<Rightarrow> int \<Rightarrow> int \<Rightarrow> int" where
  "skip_protected_right buf base n src =
     (if src < n \<and> protected (buf (base + src))
      then skip_protected_right buf base n (src + 1) else src)"
  by pat_completeness auto
termination
  by (relation "measure (\<lambda>(buf, base, n, src). nat (n - src))") auto

declare skip_protected_left.simps [simp del]
declare skip_protected_right.simps [simp del]

definition ozterm_line_insert_characters :: "Ozterm \<Rightarrow> byte \<Rightarrow> int \<Rightarrow> Ozterm" where
  "ozterm_line_insert_characters terminal c count0 =
     (let base = cursor_row (active terminal) * column_count terminal;
          x = int16_t (cursor_column (active terminal));
          count = int16_t count0
      in if x \<ge> column_count terminal then terminal
         else
           let count = (if x + count \<ge> column_count terminal
                        then int16_t (column_count terminal - x) else count);
               buf = buffer (active terminal);
               buf = for_down (column_count terminal - 1) (x + count) (\<lambda>i buf.
                       if \<not> protected (buf (base + i)) then
                         let src = skip_protected_left buf base x (i - count)
                         in if src \<ge> x then buf(base + i := buf (base + src))
                            else buf(base + i := (buf (base + i))\<lparr>character := 0x20,
                                   color := terminal_color terminal, protected := False\<rparr>)
                       else buf) buf;
               buf = for_up 0 count (\<lambda>i buf.
                       if \<not> protected (buf (base + (x + i)))
                       then buf(base + (x + i) := (buf (base + (x + i)))\<lparr>character := 0x20,
                              color := terminal_color terminal, protected := False\<rparr>)
                       else buf) buf
           in map_active (\<lambda>s. s\<lparr>buffer := buf\<rparr>) terminal)"

definition ozterm_line_delete_characters :: "Ozterm \<Rightarrow> int \<Rightarrow> Ozterm" where
  "ozterm_line_delete_characters terminal count0 =
     (let base = cursor_row (active terminal) * column_count terminal;
          x = int16_t (cursor_column (active terminal));
          count = int16_t count0
      in if x \<ge> column_count terminal then terminal
         else
           let count = (if x + count \<ge> column_count terminal
                        then int16_t (column_count terminal - x) else count);
               buf = buffer (active terminal);
               buf = for_up x (column_count terminal - count) (\<lambda>i buf.
                       if \<not> protected (buf (base + i)) then
                         let src = skip_protected_right buf base (column_count terminal) (i + count)
                         in if src < column_count terminal then buf(base + i := buf (base + src))
                            else buf(base + i := (buf (base + i))\<lparr>character := 0x20,
                                   color := terminal_color terminal, protected := False\<rparr>)
                       else buf) buf;
               buf = for_up (column_count terminal - count) (column_count terminal) (\<lambda>i buf.
                       if \<not> protected (buf (base + i))
                       then buf(base + i := (buf (base + i))\<lparr>character := 0x20,
                              color := terminal_color terminal, protected := False\<rparr>)
                       else buf) buf
           in map_active (\<lambda>s. s\<lparr>buffer := buf\<rparr>) terminal)"

subsection \<open>Put character\<close>

text \<open>
  The last branch of \<open>ozterm_put_character_and_cursor\<close> (a byte that \<open>isgraph\<close> or
  \<open>isspace\<close> accepts): wrap if the cursor is at or past \<open>column_count\<close>, write the cell,
  tell the host, move the cursor one column on.
\<close>

definition put_cell_and_advance :: "Ozterm \<Rightarrow> byte \<Rightarrow> Ozterm" where
  "put_cell_and_advance terminal c =
     (let terminal =
            (if cursor_column (active terminal) \<ge> column_count terminal then
               let terminal = map_active (\<lambda>s. s\<lparr>cursor_column := 0\<rparr>) terminal
               in if cursor_row (active terminal) = scroll_bottom terminal
                  then ozterm_scroll_up terminal 1
                  else map_active (\<lambda>s. s\<lparr>cursor_row := cursor_row s + 1\<rparr>) terminal
             else terminal);
          idx = cursor_row (active terminal) * column_count terminal
                  + cursor_column (active terminal);
          terminal = map_active (\<lambda>s. s\<lparr>buffer := (buffer s)
                       (idx := (buffer s idx)\<lparr>character := c,
                          color := terminal_color terminal,
                          protected := attr_protected s\<rparr>)\<rparr>) terminal;
          terminal =
            (if set_character_function terminal
             then terminal\<lparr>host_events := host_events terminal @
                    [Set_Character (cursor_row (active terminal))
                       (cursor_column (active terminal)) c]\<rparr>
             else terminal)
      in ozterm_move_cursor terminal (cursor_row (active terminal))
           (cursor_column (active terminal) + 1))"

text \<open>
  In the tab branch the function calls itself with \<open>' '\<close>, a call that takes the last
  branch; the model calls \<open>put_cell_and_advance\<close> there. \<open>TAB_WIDTH\<close> is 8.
\<close>

definition TAB_WIDTH :: int where
  "TAB_WIDTH = 8"

definition ozterm_put_character_and_cursor :: "Ozterm \<Rightarrow> byte \<Rightarrow> Ozterm" where
  "ozterm_put_character_and_cursor terminal c =
     (if c = 0x0A then
        (if cursor_row (active terminal) = scroll_bottom terminal
         then ozterm_scroll_up terminal 1
         else ozterm_move_cursor terminal (cursor_row (active terminal) + 1)
                (cursor_column (active terminal)))
      else if c = 0x0D then
        ozterm_move_cursor terminal (cursor_row (active terminal)) 0
      else if c = 0x08 then
        (if cursor_column (active terminal) > 0
         then ozterm_move_cursor_diff terminal 0 (- 1) else terminal)
      else if c = 0x09 then
        (let col = int16_t (cursor_column (active terminal));
             spaces = int16_t (TAB_WIDTH - c_rem col TAB_WIDTH)
         in for_up 0 spaces (\<lambda>i terminal. put_cell_and_advance terminal 0x20) terminal)
      else if isgraph c \<or> isspace c then put_cell_and_advance terminal c
      else terminal)"

subsection \<open>C strings: atoi, strtol, the %d of snprintf\<close>

text \<open>A C string literal as bytes.\<close>

definition str :: "string \<Rightarrow> byte list" where
  "str s = map (\<lambda>c. of_nat (of_char c)) s"

definition digits_value :: "byte list \<Rightarrow> int" where
  "digits_value ds = foldl (\<lambda>a d. a * 10 + (uint d - 48)) 0 ds"

text \<open>
  \<open>strtol\<close> in base 10: white space, an optional sign, then the decimal digits up to the
  first other byte; 0 when there is no digit. The result is a \<open>long\<close> of 64 bits: a value
  outside its range is replaced by \<open>LONG_MAX\<close> or \<open>LONG_MIN\<close>.
\<close>

definition LONG_MAX :: int where
  "LONG_MAX = 9223372036854775807"

definition LONG_MIN :: int where
  "LONG_MIN = - 9223372036854775808"

definition strtol :: "byte list \<Rightarrow> int" where
  "strtol s =
     (let s = dropWhile isspace s
      in case s of
           [] \<Rightarrow> 0
         | c # rest \<Rightarrow>
             if c = 0x2D then max LONG_MIN (- digits_value (takeWhile isdigit rest))
             else if c = 0x2B then min LONG_MAX (digits_value (takeWhile isdigit rest))
             else min LONG_MAX (digits_value (takeWhile isdigit s)))"

text \<open>
  The conversion of a \<open>long\<close> to \<open>int\<close> keeps the low 32 bits. \<open>atoi\<close> is
  \<open>(int) strtol(s, NULL, 10)\<close>: C leaves it undefined when the value does not fit an
  \<open>int\<close>, and this is what the C library does then.
\<close>

definition int32_t :: "int \<Rightarrow> int" where
  "int32_t x = (x + 2147483648) mod 4294967296 - 2147483648"

definition atoi :: "byte list \<Rightarrow> int" where
  "atoi s = int32_t (strtol s)"

function dec_nat :: "nat \<Rightarrow> byte list" where
  "dec_nat n = (if n < 10 then [0x30 + of_nat n]
                else dec_nat (n div 10) @ [0x30 + of_nat (n mod 10)])"
  by pat_completeness auto
termination
  by (relation "measure (\<lambda>n. n)") auto

declare dec_nat.simps [simp del]

definition printf_d :: "int \<Rightarrow> byte list" where
  "printf_d i = (if i < 0 then 0x2D # dec_nat (nat (- i)) else dec_nat (nat i))"

subsection \<open>The parser\<close>

text \<open>
  The parser's state is held in \<open>static\<close> locals of \<open>ozterm_put_character\<close>. A buffer
  is the bytes before its terminating NUL; writing byte \<open>c\<close> at index \<open>len\<close> and a NUL
  after it leaves the first \<open>len\<close> bytes followed by \<open>c\<close>.
\<close>

datatype ParseState =
  STATE_NORMAL | STATE_ESC | STATE_CSI | STATE_OSC | STATE_G0 | STATE_G1 | STATE_HASH

record parser =
  parse_state :: ParseState
  param_buf :: "byte list"
  param_len :: int
  seq_buf :: "byte list"
  seq_len :: int
  osc_buf :: "byte list"
  osc_index :: int
  final_byte :: byte
  is_private :: bool

definition parser_init :: parser where
  "parser_init = \<lparr>parse_state = STATE_NORMAL, param_buf = [], param_len = 0,
     seq_buf = [], seq_len = 0, osc_buf = [], osc_index = 0, final_byte = 0,
     is_private = False\<rparr>"

definition ozterm_reset_attributes :: "Ozterm \<Rightarrow> Ozterm" where
  "ozterm_reset_attributes terminal = map_active (\<lambda>s. s\<lparr>attr_protected := False\<rparr>) terminal"

definition ozterm_switch_to_alt_screen :: "Ozterm \<Rightarrow> Ozterm" where
  "ozterm_switch_to_alt_screen terminal =
     call_refresh (ozterm_clear
       (terminal\<lparr>alternative_active := True, screen_active := Alternative_Screen\<rparr>))"

definition ozterm_restore_main_screen :: "Ozterm \<Rightarrow> Ozterm" where
  "ozterm_restore_main_screen terminal =
     call_refresh (terminal\<lparr>alternative_active := False, screen_active := Main_Screen\<rparr>)"

text \<open>The erasure of one cell in CSI J and CSI K: a protected cell is left alone.\<close>

definition erase_cell :: "Ozterm \<Rightarrow> int \<Rightarrow> cells \<Rightarrow> cells" where
  "erase_cell terminal index buf =
     (if \<not> protected (buf index)
      then buf(index := (buf index)\<lparr>character := 0x20, color := terminal_color terminal\<rparr>)
      else buf)"

definition csi_J :: "Ozterm \<Rightarrow> byte list \<Rightarrow> Ozterm" where
  "csi_J terminal effective_param =
     (let mode = (if effective_param \<noteq> [] then atoi effective_param else 0);
          cy = cursor_row (active terminal);
          cx = cursor_column (active terminal);
          buf = buffer (active terminal);
          buf =
            (if mode = 0 then
               for_up cy (row_count terminal) (\<lambda>y.
                 for_up (if y = cy then cx else 0) (column_count terminal) (\<lambda>x.
                   erase_cell terminal (y * column_count terminal + x))) buf
             else if mode = 1 then
               for_up 0 (cy + 1) (\<lambda>y.
                 for_up 0 (if y = cy then cx + 1 else column_count terminal) (\<lambda>x.
                   erase_cell terminal (y * column_count terminal + x))) buf
             else
               for_up 0 (row_count terminal) (\<lambda>y.
                 for_up 0 (column_count terminal) (\<lambda>x.
                   erase_cell terminal (y * column_count terminal + x))) buf)
      in map_active (\<lambda>s. s\<lparr>buffer := buf\<rparr>) terminal)"

definition csi_K :: "Ozterm \<Rightarrow> byte list \<Rightarrow> Ozterm" where
  "csi_K terminal effective_param =
     (let y = cursor_row (active terminal);
          mode = (if effective_param \<noteq> [] then atoi effective_param else 0);
          x_start = (if mode = 0 then cursor_column (active terminal) else 0);
          x_end = (if mode = 1 then cursor_column (active terminal) + 1
                   else column_count terminal);
          buf = for_up x_start x_end (\<lambda>x.
                  erase_cell terminal (y * column_count terminal + x))
                  (buffer (active terminal))
      in map_active (\<lambda>s. s\<lparr>buffer := buf\<rparr>) terminal)"

text \<open>
  CSI m walks \<open>param_buf\<close> with \<open>int val = strtol(p, &p, 10)\<close>, skipping one \<open>';'\<close>
  after each number. The buffer holds digits and \<open>';'\<close> only (the CSI state appends
  nothing else), so \<open>strtol\<close> meets no white space or sign; at a \<open>';'\<close> it reads no
  digit, yields 0 and does not advance (\<open>digits_value\<close> of no digits is 0). At any
  other byte the C loop would not advance at all; the model stops there
  (\<open>param_buf_digits\<close> below shows that the case does not arise).
\<close>

definition sgr_value :: "Ozterm \<Rightarrow> int \<Rightarrow> Ozterm" where
  "sgr_value terminal val =
     (if val = 0 then ozterm_reset_attributes terminal
      else if val = 8 then map_active (\<lambda>s. s\<lparr>attr_protected := True\<rparr>) terminal
      else terminal)"

function csi_m :: "Ozterm \<Rightarrow> byte list \<Rightarrow> Ozterm" where
  "csi_m terminal p =
     (case p of
        [] \<Rightarrow> terminal
      | c # rest \<Rightarrow>
          if isdigit c \<or> c = 0x3B then
            (let val = int32_t (min LONG_MAX (digits_value (takeWhile isdigit p)));
                 q = dropWhile isdigit p;
                 q = (if q \<noteq> [] \<and> hd q = 0x3B then tl q else q)
             in csi_m (sgr_value terminal val) q)
          else terminal)"
  by pat_completeness auto
termination
proof (relation "measure (\<lambda>(terminal, p). length p)", goal_cases)
  case 1
  show ?case by simp
next
  case (2 terminal p c rest val q q')
  have q': "length q' \<le> length q"
    using 2 by (cases q) auto
  have "length q < length p \<or> (q = p \<and> c = 0x3B)"
  proof (cases "isdigit c")
    case True
    have "length (dropWhile isdigit rest) \<le> length rest"
      by (rule length_dropWhile_le)
    then show ?thesis using 2 True by simp
  next
    case False
    then show ?thesis using 2 by simp
  qed
  then have "length q' < length p"
  proof
    assume "length q < length p"
    then show ?thesis using q' by simp
  next
    assume "q = p \<and> c = 0x3B"
    then show ?thesis using 2 by (simp add: isdigit_def)
  qed
  then show ?case by simp
qed

declare csi_m.simps [simp del]

text \<open>
  The dispatch on the final byte of a CSI sequence: the \<open>switch (final_byte)\<close> of
  \<open>ozterm_put_character\<close>, with \<open>p1\<close> and \<open>p2\<close> parsed as the code does. The result is
  the terminal and the flag \<open>handled\<close>.
\<close>

definition csi_p1 :: "byte list \<Rightarrow> int" where
  "csi_p1 effective_param =
     (if 0x3B \<in> set effective_param then atoi (takeWhile (\<lambda>c. c \<noteq> 0x3B) effective_param)
      else if effective_param \<noteq> [] then atoi effective_param
      else 1)"

definition csi_p2 :: "byte list \<Rightarrow> int" where
  "csi_p2 effective_param =
     (if 0x3B \<in> set effective_param
      then atoi (tl (dropWhile (\<lambda>c. c \<noteq> 0x3B) effective_param))
      else 1)"

definition csi_dispatch :: "parser \<Rightarrow> Ozterm \<Rightarrow> Ozterm \<times> bool" where
  "csi_dispatch ps terminal =
     (let effective_param = param_buf ps;
          p1 = csi_p1 effective_param;
          p2 = csi_p2 effective_param;
          c = final_byte ps
      in if c = 0x41 then (ozterm_move_cursor_diff terminal (- p1) 0, True)
         else if c = 0x42 then (ozterm_move_cursor_diff terminal p1 0, True)
         else if c = 0x43 then (ozterm_move_cursor_diff terminal 0 p1, True)
         else if c = 0x44 then (ozterm_move_cursor_diff terminal 0 (- p1), True)
         else if c = 0x48 \<or> c = 0x66 then
           (ozterm_move_cursor terminal (if p1 > 0 then p1 - 1 else 0)
              (if p2 > 0 then p2 - 1 else 0), True)
         else if c = 0x64 then
           (ozterm_move_cursor terminal (if p1 > 0 then p1 - 1 else 0)
              (cursor_column (active terminal)), True)
         else if c = 0x47 then
           (ozterm_move_cursor terminal (cursor_row (active terminal))
              (if p1 > 0 then p1 - 1 else 0), True)
         else if c = 0x6E then
           (if effective_param = str ''6''
            then (write_to_master terminal
                    (take 31 ([0x1B, 0x5B] @ printf_d (cursor_row (active terminal) + 1)
                       @ [0x3B] @ printf_d (cursor_column (active terminal) + 1) @ [0x52])),
                  True)
            else (terminal, False))
         else if c = 0x4A then (csi_J terminal effective_param, True)
         else if c = 0x4B then (csi_K terminal effective_param, True)
         else if c = 0x6D then (csi_m terminal (param_buf ps), True)
         else if c = 0x68 then
           (if is_private ps \<and> effective_param = str ''1049''
            then (ozterm_switch_to_alt_screen terminal, True)
            else if is_private ps \<and> effective_param = str ''2004'' then (terminal, True)
            else if is_private ps \<and> effective_param = str ''25'' then (terminal, True)
            else if is_private ps \<and> effective_param = str ''12'' then (terminal, True)
            else if is_private ps \<and> effective_param = str ''7'' then (terminal, True)
            else (terminal, False))
         else if c = 0x6C then
           (if is_private ps \<and> effective_param = str ''1049''
            then (ozterm_restore_main_screen terminal, True)
            else if is_private ps \<and> effective_param = str ''2004'' then (terminal, True)
            else if is_private ps \<and> effective_param = str ''25'' then (terminal, True)
            else if is_private ps \<and> effective_param = str ''12'' then (terminal, True)
            else if is_private ps \<and> effective_param = str ''7'' then (terminal, True)
            else (terminal, False))
         else if c = 0x74 then
           (if effective_param = str ''11''
            then (write_to_master terminal ([0x1B] @ str ''[1t''), True)
            else if take 3 (param_buf ps) = str ''22;'' then (terminal, True)
            else if take 3 (param_buf ps) = str ''23;'' then (terminal, True)
            else (terminal, False))
         else if c = 0x63 then
           (if is_private ps
            then (write_to_master terminal ([0x1B] @ str ''[>0;0;0c''), True)
            else if param_buf ps = str ''0''
            then (write_to_master terminal ([0x1B] @ str ''[?1;0c''), True)
            else (terminal, False))
         else if c = 0x40 then
           (ozterm_line_insert_characters terminal 0x20 (if p1 > 0 then p1 else 1), True)
         else if c = 0x50 then
           (ozterm_line_delete_characters terminal (if p1 > 0 then p1 else 1), True)
         else if c = 0x72 then
           (if p1 \<ge> 1 \<and> p2 \<ge> 1 \<and> p1 \<le> row_count terminal \<and> p2 \<le> row_count terminal
            then (terminal\<lparr>scroll_top := p1 - 1, scroll_bottom := p2 - 1\<rparr>, True)
            else (terminal\<lparr>scroll_top := 0, scroll_bottom := row_count terminal - 1\<rparr>, True))
         else if c = 0x4D then
           (ozterm_delete_lines terminal (cursor_row (active terminal))
              (if p1 > 0 then p1 else 1), True)
         else if c = 0x4C then
           (ozterm_insert_lines terminal (cursor_row (active terminal))
              (if p1 > 0 then p1 else 1), True)
         else if c = 0x53 then
           (ozterm_scroll_up_region terminal (if p1 > 0 then p1 else 1), True)
         else if c = 0x54 then
           (ozterm_scroll_down_region terminal (if p1 > 0 then p1 else 1), True)
         else (terminal, False))"

text \<open>
  \<open>ozterm_put_character\<close>: one byte through the state machine. The state is the pair of
  the parser's statics and the terminal. Whatever the branch, the scrollback view
  snaps back to live at the end.
\<close>

definition put_character_switch :: "parser \<Rightarrow> Ozterm \<Rightarrow> byte \<Rightarrow> parser \<times> Ozterm" where
  "put_character_switch ps terminal c =
     (case parse_state ps of
        STATE_NORMAL \<Rightarrow>
          if c = 0x1B then (ps\<lparr>parse_state := STATE_ESC\<rparr>, terminal)
          else if (c \<ge> 0x20 \<and> c \<le> 0x7E) \<or> c = 0x0A \<or> c = 0x0D \<or> c = 0x08 \<or> c = 0x09
          then (ps, ozterm_put_character_and_cursor terminal c)
          else (ps, terminal)
      | STATE_ESC \<Rightarrow>
          if c = 0x5B then
            (ps\<lparr>parse_state := STATE_CSI, param_len := 0, seq_len := 0,
                is_private := False, param_buf := [], seq_buf := []\<rparr>, terminal)
          else if c = 0x5D then
            (ps\<lparr>parse_state := STATE_OSC, osc_index := 0, osc_buf := []\<rparr>, terminal)
          else if c = 0x28 then (ps\<lparr>parse_state := STATE_G0\<rparr>, terminal)
          else if c = 0x29 then (ps\<lparr>parse_state := STATE_G1\<rparr>, terminal)
          else if c = 0x23 then (ps\<lparr>parse_state := STATE_HASH\<rparr>, terminal)
          else if c = 0x37 then
            (ps\<lparr>parse_state := STATE_NORMAL\<rparr>,
             terminal\<lparr>saved_cursor_row := cursor_row (active terminal),
                      saved_cursor_column := cursor_column (active terminal)\<rparr>)
          else if c = 0x38 then
            (ps\<lparr>parse_state := STATE_NORMAL\<rparr>,
             ozterm_move_cursor terminal (saved_cursor_row terminal)
               (saved_cursor_column terminal))
          else if c = 0x63 then
            (ps\<lparr>parse_state := STATE_NORMAL\<rparr>,
             ozterm_move_cursor (ozterm_clear terminal) 0 0)
          else if c = 0x44 then
            (ps\<lparr>parse_state := STATE_NORMAL\<rparr>, ozterm_move_cursor_diff terminal 1 0)
          else if c = 0x45 then
            (ps\<lparr>parse_state := STATE_NORMAL\<rparr>,
             ozterm_move_cursor terminal (cursor_row (active terminal) + 1) 0)
          else if c = 0x4D then
            (ps\<lparr>parse_state := STATE_NORMAL\<rparr>, ozterm_scroll_down_region terminal 1)
          else if c = 0x5A then
            (ps\<lparr>parse_state := STATE_NORMAL\<rparr>,
             write_to_master terminal ([0x1B] @ str ''[?6c''))
          else (ps\<lparr>parse_state := STATE_NORMAL\<rparr>, terminal)
      | STATE_OSC \<Rightarrow>
          if c = 0x07 then
            (ps\<lparr>parse_state := STATE_NORMAL,
                osc_buf := take (nat (osc_index ps)) (osc_buf ps)\<rparr>, terminal)
          else if c = 0x1B then (ps\<lparr>parse_state := STATE_ESC\<rparr>, terminal)
          else if osc_index ps < 63 then
            (ps\<lparr>osc_buf := take (nat (osc_index ps)) (osc_buf ps) @ [c],
                osc_index := osc_index ps + 1\<rparr>, terminal)
          else (ps, terminal)
      | STATE_G0 \<Rightarrow> (ps\<lparr>parse_state := STATE_NORMAL\<rparr>, terminal)
      | STATE_G1 \<Rightarrow> (ps\<lparr>parse_state := STATE_NORMAL\<rparr>, terminal)
      | STATE_HASH \<Rightarrow>
          (ps\<lparr>parse_state := STATE_NORMAL\<rparr>,
           if c = 0x38 then
             ozterm_move_cursor
               (map_active (\<lambda>s. s\<lparr>buffer :=
                  for_up 0 (row_count terminal) (\<lambda>y.
                    for_up 0 (column_count terminal) (\<lambda>x buf.
                      buf(y * column_count terminal + x :=
                        (buf (y * column_count terminal + x))\<lparr>character := 0x45,
                          color := terminal_color terminal\<rparr>))) (buffer s)\<rparr>) terminal) 0 0
           else terminal)
      | STATE_CSI \<Rightarrow>
          (let ps = (if seq_len ps < 63
                     then ps\<lparr>seq_buf := take (nat (seq_len ps)) (seq_buf ps) @ [c],
                            seq_len := seq_len ps + 1\<rparr>
                     else ps)
           in if c = 0x3F \<or> c = 0x3E then (ps\<lparr>is_private := True\<rparr>, terminal)
              else if (c \<ge> 0x30 \<and> c \<le> 0x39) \<or> c = 0x3B then
                (if param_len ps < 31
                 then ps\<lparr>param_buf := take (nat (param_len ps)) (param_buf ps) @ [c],
                        param_len := param_len ps + 1\<rparr>
                 else ps, terminal)
              else if c < 0x40 \<or> c > 0x7E then
                (ps\<lparr>parse_state := STATE_NORMAL, param_len := 0, seq_len := 0\<rparr>, terminal)
              else
                let ps = ps\<lparr>final_byte := c\<rparr>;
                    (terminal, handled) = csi_dispatch ps terminal;
                    terminal =
                      (if \<not> handled
                       then terminal\<lparr>host_events := host_events terminal @
                              [Unhandled_CSI (is_private ps) (param_buf ps) (final_byte ps)]\<rparr>
                       else terminal)
                in (ps\<lparr>parse_state := STATE_NORMAL, param_len := 0, seq_len := 0\<rparr>,
                    terminal)))"

definition ozterm_put_character :: "parser \<times> Ozterm \<Rightarrow> byte \<Rightarrow> parser \<times> Ozterm" where
  "ozterm_put_character s c =
     (let (ps, terminal) = put_character_switch (fst s) (snd s) c
      in (ps, if scroll_offset terminal > 0 then terminal\<lparr>scroll_offset := 0\<rparr>
              else terminal))"

subsection \<open>Feeding a buffer\<close>

text \<open>
  \<open>ozterm_put_text\<close> walks the buffer with \<open>while (*c && i < size)\<close>: it reads the byte
  at index \<open>i\<close> before it compares \<open>i\<close> with \<open>size\<close>. \<open>text\<close> is the caller's
  buffer and \<open>beyond\<close> is what the memory holds behind it, which the function cannot
  know. The result is the state together with a flag that tells whether a byte outside
  the buffer has been read.
\<close>

definition read_byte :: "byte list \<Rightarrow> (nat \<Rightarrow> byte) \<Rightarrow> nat \<Rightarrow> byte" where
  "read_byte text beyond i = (if i < length text then text ! i else beyond i)"

function put_text_loop ::
  "(nat \<Rightarrow> byte) \<Rightarrow> parser \<times> Ozterm \<Rightarrow> byte list \<Rightarrow> nat \<Rightarrow> int \<Rightarrow> bool
   \<Rightarrow> bool \<times> parser \<times> Ozterm" where
  "put_text_loop beyond s text i sz outside =
     (if read_byte text beyond i \<noteq> 0 \<and> int i < sz
      then put_text_loop beyond (ozterm_put_character s (read_byte text beyond i)) text (Suc i) sz
             (outside \<or> length text \<le> i)
      else (outside \<or> length text \<le> i, s))"
  by pat_completeness auto
termination
  by (relation "measure (\<lambda>(beyond, s, text, i, sz, outside). nat (sz - int i))") auto

declare put_text_loop.simps [simp del]

definition ozterm_put_text ::
  "(nat \<Rightarrow> byte) \<Rightarrow> parser \<times> Ozterm \<Rightarrow> byte list \<Rightarrow> int \<Rightarrow> bool \<times> parser \<times> Ozterm" where
  "ozterm_put_text beyond s text sz = put_text_loop beyond s text 0 sz False"

definition ozterm_have_read_from_master ::
  "(nat \<Rightarrow> byte) \<Rightarrow> parser \<times> Ozterm \<Rightarrow> byte list \<Rightarrow> int \<Rightarrow> bool \<times> parser \<times> Ozterm" where
  "ozterm_have_read_from_master beyond s data sz = ozterm_put_text beyond s data sz"

text \<open>A memory that holds the byte \<open>b\<close> at every index.\<close>

definition memory_of :: "byte \<Rightarrow> nat \<Rightarrow> byte" where
  "memory_of b i = b"

subsection \<open>Creation\<close>

text \<open>
  \<open>ozterm_create\<close>: everything zeroed by \<open>memset\<close>, the fields set, the active (main)
  screen cleared. The dimensions are \<open>uint16_t\<close>. No callback is installed.
\<close>

definition zero_cell :: OztermCell where
  "zero_cell = \<lparr>character = 0, color = 0, protected = False\<rparr>"

definition zero_screen :: OztermScreen where
  "zero_screen = \<lparr>buffer = (\<lambda>i. zero_cell), cursor_column = 0, cursor_row = 0,
     attr_protected = False\<rparr>"

definition ozterm_create :: "int \<Rightarrow> int \<Rightarrow> Ozterm" where
  "ozterm_create row_count0 column_count0 =
     ozterm_clear
       \<lparr>screen_main = zero_screen,
        screen_alternative = zero_screen,
        screen_active = Main_Screen,
        alternative_active = False,
        saved_cursor_column = 0,
        saved_cursor_row = 0,
        column_count = column_count0 mod 65536,
        row_count = row_count0 mod 65536,
        scroll_top = 0,
        scroll_bottom = row_count0 mod 65536 - 1,
        terminal_color = 0x0A,
        scrollback = (\<lambda>i x. zero_cell),
        scrollback_head = 0,
        scrollback_count = 0,
        scroll_offset = 0,
        write_to_master_function = False,
        refresh_function = False,
        set_character_function = False,
        move_cursor_function = False,
        host_events = []\<rparr>"

subsection \<open>The key encoder\<close>

text \<open>
  Modelled from the spec: the enumerations \<open>OztermKey\<close> and \<open>OztermKeyModifier\<close> of
  ozterm.h, which is not among the sources. A key is one of the named keys or a literal
  byte; a modifier mask is a set of the four modifier bits.
\<close>

datatype OztermKey =
    OZTERM_KEY_F1 | OZTERM_KEY_F2 | OZTERM_KEY_F3 | OZTERM_KEY_F4
  | OZTERM_KEY_F5 | OZTERM_KEY_F6 | OZTERM_KEY_F7 | OZTERM_KEY_F8
  | OZTERM_KEY_F9 | OZTERM_KEY_F10 | OZTERM_KEY_F11 | OZTERM_KEY_F12
  | OZTERM_KEY_HOME | OZTERM_KEY_END | OZTERM_KEY_UP | OZTERM_KEY_DOWN
  | OZTERM_KEY_LEFT | OZTERM_KEY_RIGHT | OZTERM_KEY_PAGEUP | OZTERM_KEY_PAGEDOWN
  | OZTERM_KEY_INSERT | OZTERM_KEY_DELETE
  | OZTERM_KEY_RETURN | OZTERM_KEY_BACKSPACE | OZTERM_KEY_ESCAPE | OZTERM_KEY_TAB
  | Literal_Byte byte

datatype OztermKeyModifier =
  OZTERM_KEYM_LEFTSHIFT | OZTERM_KEYM_RIGHTSHIFT | OZTERM_KEYM_CTRL | OZTERM_KEYM_ALT

text \<open>
  \<open>snprintf (out, max, ...)\<close> stores at most \<open>max - 1\<close> bytes of the formatted text
  and returns the length of the whole text. \<open>write_csi_sequence\<close> gives the bytes stored
  and that length.
\<close>

definition snprintf :: "nat \<Rightarrow> byte list \<Rightarrow> byte list \<times> int" where
  "snprintf maxlen formatted = (take (maxlen - 1) formatted, int (length formatted))"

definition write_csi_sequence :: "nat \<Rightarrow> int \<Rightarrow> byte \<Rightarrow> int \<Rightarrow> byte list \<times> int" where
  "write_csi_sequence maxlen code final mod_value =
     (if mod_value \<le> 1 then
        (if code = 1 then snprintf maxlen ([0x1B, 0x5B] @ [final])
         else snprintf maxlen ([0x1B, 0x5B] @ printf_d code @ [final]))
      else snprintf maxlen ([0x1B, 0x5B] @ printf_d code @ [0x3B] @ printf_d mod_value @ [final]))"

text \<open>
  \<open>ozterm_send_key\<close>: \<open>seq\<close> is 16 zeroed bytes, filled by one of the branches; the
  installed callback receives its first \<open>size\<close> bytes.
\<close>

definition send_key_sequence :: "OztermKeyModifier set \<Rightarrow> OztermKey \<Rightarrow> byte list \<times> int" where
  "send_key_sequence modifier key =
     (let mod_value = 1;
          mod_value = (if modifier \<inter> {OZTERM_KEYM_LEFTSHIFT, OZTERM_KEYM_RIGHTSHIFT} \<noteq> {}
                       then mod_value + 1 else mod_value);
          mod_value = (if OZTERM_KEYM_ALT \<in> modifier then mod_value + 2 else mod_value);
          mod_value = (if OZTERM_KEYM_CTRL \<in> modifier then mod_value + 4 else mod_value);
          ss3_or_csi = (\<lambda>base. if mod_value = 1 then ([0x1B, 0x4F, base], 3)
                               else write_csi_sequence 16 1 base mod_value)
      in case key of
           OZTERM_KEY_F1 \<Rightarrow> ss3_or_csi 0x50
         | OZTERM_KEY_F2 \<Rightarrow> ss3_or_csi 0x51
         | OZTERM_KEY_F3 \<Rightarrow> ss3_or_csi 0x52
         | OZTERM_KEY_F4 \<Rightarrow> ss3_or_csi 0x53
         | OZTERM_KEY_F5 \<Rightarrow> write_csi_sequence 16 15 0x7E mod_value
         | OZTERM_KEY_F6 \<Rightarrow> write_csi_sequence 16 17 0x7E mod_value
         | OZTERM_KEY_F7 \<Rightarrow> write_csi_sequence 16 18 0x7E mod_value
         | OZTERM_KEY_F8 \<Rightarrow> write_csi_sequence 16 19 0x7E mod_value
         | OZTERM_KEY_F9 \<Rightarrow> write_csi_sequence 16 20 0x7E mod_value
         | OZTERM_KEY_F10 \<Rightarrow> write_csi_sequence 16 21 0x7E mod_value
         | OZTERM_KEY_F11 \<Rightarrow> write_csi_sequence 16 23 0x7E mod_value
         | OZTERM_KEY_F12 \<Rightarrow> write_csi_sequence 16 24 0x7E mod_value
         | OZTERM_KEY_HOME \<Rightarrow> write_csi_sequence 16 1 0x48 mod_value
         | OZTERM_KEY_END \<Rightarrow> write_csi_sequence 16 1 0x46 mod_value
         | OZTERM_KEY_UP \<Rightarrow> write_csi_sequence 16 1 0x41 mod_value
         | OZTERM_KEY_DOWN \<Rightarrow> write_csi_sequence 16 1 0x42 mod_value
         | OZTERM_KEY_LEFT \<Rightarrow> write_csi_sequence 16 1 0x44 mod_value
         | OZTERM_KEY_RIGHT \<Rightarrow> write_csi_sequence 16 1 0x43 mod_value
         | OZTERM_KEY_PAGEUP \<Rightarrow> write_csi_sequence 16 5 0x7E mod_value
         | OZTERM_KEY_PAGEDOWN \<Rightarrow> write_csi_sequence 16 6 0x7E mod_value
         | OZTERM_KEY_INSERT \<Rightarrow> write_csi_sequence 16 2 0x7E mod_value
         | OZTERM_KEY_DELETE \<Rightarrow> write_csi_sequence 16 3 0x7E mod_value
         | OZTERM_KEY_RETURN \<Rightarrow> ([0x0D], 1)
         | OZTERM_KEY_BACKSPACE \<Rightarrow> ([127], 1)
         | OZTERM_KEY_ESCAPE \<Rightarrow> ([0x1B], 1)
         | OZTERM_KEY_TAB \<Rightarrow> ([0x09], 1)
         | Literal_Byte k \<Rightarrow>
             ([if modifier = {OZTERM_KEYM_CTRL} \<and> isgraph k then toupper k - 0x40 else k], 1))"

definition ozterm_send_key :: "Ozterm \<Rightarrow> OztermKeyModifier set \<Rightarrow> OztermKey \<Rightarrow> Ozterm" where
  "ozterm_send_key terminal modifier key =
     (let (stored, sz) = send_key_sequence modifier key;
          seq = take 16 (stored @ replicate 16 0)
      in if write_to_master_function terminal \<and> sz > 0
         then terminal\<lparr>host_events := host_events terminal @
                [Write_To_Master (take (nat sz) seq)]\<rparr>
         else terminal)"

subsection \<open>What no cursor motion touches\<close>

text \<open>The saved cursor and the dimensions of the terminal.\<close>

definition frame :: "Ozterm \<Rightarrow> int \<times> int \<times> int \<times> int" where
  "frame t = (saved_cursor_row t, saved_cursor_column t, row_count t, column_count t)"

text \<open>
  The number of lines that the scroll operations work with: the argument, 1 if it is not
  positive, clamped to the height of the scroll region.
\<close>

definition region_lines :: "Ozterm \<Rightarrow> int \<Rightarrow> int" where
  "region_lines t n =
     (let lines = (if n \<le> 0 then 1 else n)
      in if lines > scroll_bottom t - scroll_top t + 1
         then scroll_bottom t - scroll_top t + 1 else lines)"

subsection \<open>The key encoder in the spec's words\<close>

text \<open>
  For comparison with \<open>ozterm_send_key\<close>: the modifier value, the table of the named
  navigation keys (code and final byte) and the two formats of the CSI sequence, as the
  spec states them.
\<close>

definition spec_mod_value :: "OztermKeyModifier set \<Rightarrow> int" where
  "spec_mod_value m =
     1 + (if OZTERM_KEYM_LEFTSHIFT \<in> m \<or> OZTERM_KEYM_RIGHTSHIFT \<in> m then 1 else 0)
       + (if OZTERM_KEYM_ALT \<in> m then 2 else 0)
       + (if OZTERM_KEYM_CTRL \<in> m then 4 else 0)"

fun spec_navigation :: "OztermKey \<Rightarrow> (int \<times> byte) option" where
  "spec_navigation OZTERM_KEY_HOME = Some (1, 0x48)"
| "spec_navigation OZTERM_KEY_END = Some (1, 0x46)"
| "spec_navigation OZTERM_KEY_UP = Some (1, 0x41)"
| "spec_navigation OZTERM_KEY_DOWN = Some (1, 0x42)"
| "spec_navigation OZTERM_KEY_LEFT = Some (1, 0x44)"
| "spec_navigation OZTERM_KEY_RIGHT = Some (1, 0x43)"
| "spec_navigation OZTERM_KEY_PAGEUP = Some (5, 0x7E)"
| "spec_navigation OZTERM_KEY_PAGEDOWN = Some (6, 0x7E)"
| "spec_navigation OZTERM_KEY_INSERT = Some (2, 0x7E)"
| "spec_navigation OZTERM_KEY_DELETE = Some (3, 0x7E)"
| "spec_navigation _ = None"

definition spec_csi :: "int \<Rightarrow> byte \<Rightarrow> int \<Rightarrow> byte list" where
  "spec_csi code final mod_value =
     (if mod_value = 1
      then (if code = 1 then [0x1B, 0x5B, final] else [0x1B, 0x5B] @ printf_d code @ [final])
      else [0x1B, 0x5B] @ printf_d code @ [0x3B] @ printf_d mod_value @ [final])"

subsection \<open>Cursor motion, as bytes\<close>

text \<open>
  The sequences that move the cursor: the CSI sequences with final byte A, B, C, D
  (arrows), H and f (cursor position), d and G (line and column position), with any list
  of decimal parameters separated by \<open>';'\<close>; index (\<open>ESC D\<close>) and next line (\<open>ESC E\<close>);
  carriage return, line feed, backspace and tab.
\<close>

datatype csi_motion_final =
    Cursor_Up | Cursor_Down | Cursor_Forward | Cursor_Back
  | Cursor_Position | HV_Position | Line_Position | Column_Position

fun final_byte_of :: "csi_motion_final \<Rightarrow> byte" where
  "final_byte_of Cursor_Up = 0x41"
| "final_byte_of Cursor_Down = 0x42"
| "final_byte_of Cursor_Forward = 0x43"
| "final_byte_of Cursor_Back = 0x44"
| "final_byte_of Cursor_Position = 0x48"
| "final_byte_of HV_Position = 0x66"
| "final_byte_of Line_Position = 0x64"
| "final_byte_of Column_Position = 0x47"

datatype cursor_motion =
    Csi_Motion "nat list" csi_motion_final
  | Index
  | Next_Line
  | Carriage_Return
  | Line_Feed
  | Backspace
  | Tab

fun csi_params :: "nat list \<Rightarrow> byte list" where
  "csi_params [] = []"
| "csi_params [n] = dec_nat n"
| "csi_params (n # m # ns) = dec_nat n @ [0x3B] @ csi_params (m # ns)"

fun motion_bytes :: "cursor_motion \<Rightarrow> byte list" where
  "motion_bytes (Csi_Motion ns f) = [0x1B, 0x5B] @ csi_params ns @ [final_byte_of f]"
| "motion_bytes Index = [0x1B, 0x44]"
| "motion_bytes Next_Line = [0x1B, 0x45]"
| "motion_bytes Carriage_Return = [0x0D]"
| "motion_bytes Line_Feed = [0x0A]"
| "motion_bytes Backspace = [0x08]"
| "motion_bytes Tab = [0x09]"


subsection \<open>Decimal numerals\<close>

text \<open>
  The bytes \<open>ds\<close> are the decimal numeral of \<open>n\<close>: one or more of the digits \<open>'0'\<close> to
  \<open>'9'\<close>, the most significant first, with no leading \<open>'0'\<close> unless the numeral is \<open>0\<close>
  itself.
\<close>

definition decimal_numeral :: "byte list \<Rightarrow> int \<Rightarrow> bool" where
  "decimal_numeral ds n =
     (ds \<noteq> [] \<and> list_all (\<lambda>d. 0x30 \<le> d \<and> d \<le> 0x39) ds \<and> (hd ds = 0x30 \<longrightarrow> ds = [0x30]) \<and>
      foldl (\<lambda>a d. 10 * a + (uint d - 0x30)) 0 ds = n)"
section \<open>Properties\<close>

subsection \<open>Basic facts about the operations\<close>

lemma int16_t_id: "- 32768 \<le> x \<Longrightarrow> x < 32768 \<Longrightarrow> int16_t x = x"
  by (simp add: int16_t_def)

lemma active_map_active [simp]: "active (map_active f t) = f (active t)"
  by (simp add: active_def map_active_def split: screen_ref.splits)

lemma map_active_fields [simp]:
  "screen_active (map_active f t) = screen_active t"
  "alternative_active (map_active f t) = alternative_active t"
  "saved_cursor_column (map_active f t) = saved_cursor_column t"
  "saved_cursor_row (map_active f t) = saved_cursor_row t"
  "column_count (map_active f t) = column_count t"
  "row_count (map_active f t) = row_count t"
  "scroll_top (map_active f t) = scroll_top t"
  "scroll_bottom (map_active f t) = scroll_bottom t"
  "terminal_color (map_active f t) = terminal_color t"
  "scrollback (map_active f t) = scrollback t"
  "scrollback_head (map_active f t) = scrollback_head t"
  "scrollback_count (map_active f t) = scrollback_count t"
  "scroll_offset (map_active f t) = scroll_offset t"
  "write_to_master_function (map_active f t) = write_to_master_function t"
  "refresh_function (map_active f t) = refresh_function t"
  "set_character_function (map_active f t) = set_character_function t"
  "move_cursor_function (map_active f t) = move_cursor_function t"
  "host_events (map_active f t) = host_events t"
  by (simp_all add: map_active_def split: screen_ref.splits)

lemma active_update_other [simp]:
  "active (t\<lparr>host_events := e\<rparr>) = active t"
  "active (t\<lparr>scroll_offset := z\<rparr>) = active t"
  "active (t\<lparr>saved_cursor_row := r\<rparr>) = active t"
  "active (t\<lparr>saved_cursor_column := c\<rparr>) = active t"
  "active (t\<lparr>scroll_top := a\<rparr>) = active t"
  "active (t\<lparr>scroll_bottom := b\<rparr>) = active t"
  "active (t\<lparr>scrollback := sb\<rparr>) = active t"
  "active (t\<lparr>scrollback_head := h\<rparr>) = active t"
  "active (t\<lparr>scrollback_count := n\<rparr>) = active t"
  by (simp_all add: active_def split: screen_ref.splits)

lemma length_dec_nat: "0 < k \<Longrightarrow> n < 10 ^ k \<Longrightarrow> length (dec_nat n) \<le> k"
proof (induction k arbitrary: n)
  case 0
  then show ?case by simp
next
  case (Suc k)
  show ?case
  proof (cases "n < 10")
    case True
    then show ?thesis by (simp add: dec_nat.simps)
  next
    case False
    then have k: "0 < k" using Suc.prems by (cases k) auto
    have "n div 10 < 10 ^ k" using Suc.prems by (simp add: less_mult_imp_div_less mult.commute)
    then have "length (dec_nat (n div 10)) \<le> k" using Suc.IH k by blast
    then show ?thesis using False by (subst dec_nat.simps) simp
  qed
qed

lemma length_printf_d: "- 100000 < i \<Longrightarrow> i < 100000 \<Longrightarrow> length (printf_d i) \<le> 6"
proof -
  assume b: "- 100000 < i" "i < 100000"
  have "length (dec_nat (nat i)) \<le> 5"
    by (rule length_dec_nat) (use b in auto)
  moreover have "length (dec_nat (nat (- i))) \<le> 5"
    by (rule length_dec_nat) (use b in auto)
  ultimately show ?thesis by (simp add: printf_d_def)
qed

lemma dec_nat_nonempty: "dec_nat n \<noteq> []"
  by (subst dec_nat.simps) simp


lemma move_cursor_fields [simp]:
  "screen_active (ozterm_move_cursor t r c) = screen_active t"
  "alternative_active (ozterm_move_cursor t r c) = alternative_active t"
  "saved_cursor_column (ozterm_move_cursor t r c) = saved_cursor_column t"
  "saved_cursor_row (ozterm_move_cursor t r c) = saved_cursor_row t"
  "column_count (ozterm_move_cursor t r c) = column_count t"
  "row_count (ozterm_move_cursor t r c) = row_count t"
  "scroll_top (ozterm_move_cursor t r c) = scroll_top t"
  "scroll_bottom (ozterm_move_cursor t r c) = scroll_bottom t"
  "terminal_color (ozterm_move_cursor t r c) = terminal_color t"
  "scrollback (ozterm_move_cursor t r c) = scrollback t"
  "scrollback_head (ozterm_move_cursor t r c) = scrollback_head t"
  "scrollback_count (ozterm_move_cursor t r c) = scrollback_count t"
  "scroll_offset (ozterm_move_cursor t r c) = scroll_offset t"
  "write_to_master_function (ozterm_move_cursor t r c) = write_to_master_function t"
  "refresh_function (ozterm_move_cursor t r c) = refresh_function t"
  "set_character_function (ozterm_move_cursor t r c) = set_character_function t"
  "move_cursor_function (ozterm_move_cursor t r c) = move_cursor_function t"
  "buffer (active (ozterm_move_cursor t r c)) = buffer (active t)"
  "attr_protected (active (ozterm_move_cursor t r c)) = attr_protected (active t)"
  by (simp_all add: ozterm_move_cursor_def Let_def)

lemma move_cursor_events:
  "host_events (ozterm_move_cursor t r c) =
     (if move_cursor_function t
      then host_events t @ [Move_Cursor (cursor_row (active t)) (cursor_column (active t))
             (cursor_row (active (ozterm_move_cursor t r c)))
             (cursor_column (active (ozterm_move_cursor t r c)))]
      else host_events t)"
  by (simp add: ozterm_move_cursor_def Let_def)

lemma move_cursor_in_range:
  assumes "0 \<le> r" "r < row_count t" "r < 32768" "0 \<le> c" "c < column_count t" "c < 32768"
  shows "cursor_row (active (ozterm_move_cursor t r c)) = r"
    and "cursor_column (active (ozterm_move_cursor t r c)) = c"
  using assms by (simp_all add: ozterm_move_cursor_def Let_def int16_t_id)

lemma clear_fields [simp]:
  "screen_active (ozterm_clear t) = screen_active t"
  "alternative_active (ozterm_clear t) = alternative_active t"
  "saved_cursor_column (ozterm_clear t) = saved_cursor_column t"
  "saved_cursor_row (ozterm_clear t) = saved_cursor_row t"
  "column_count (ozterm_clear t) = column_count t"
  "row_count (ozterm_clear t) = row_count t"
  "scroll_top (ozterm_clear t) = scroll_top t"
  "scroll_bottom (ozterm_clear t) = scroll_bottom t"
  "terminal_color (ozterm_clear t) = terminal_color t"
  "scrollback (ozterm_clear t) = scrollback t"
  "scrollback_head (ozterm_clear t) = scrollback_head t"
  "scrollback_count (ozterm_clear t) = scrollback_count t"
  "scroll_offset (ozterm_clear t) = scroll_offset t"
  "write_to_master_function (ozterm_clear t) = write_to_master_function t"
  "refresh_function (ozterm_clear t) = refresh_function t"
  "set_character_function (ozterm_clear t) = set_character_function t"
  "move_cursor_function (ozterm_clear t) = move_cursor_function t"
  "attr_protected (active (ozterm_clear t)) = attr_protected (active t)"
  by (simp_all add: ozterm_clear_def Let_def)

lemma create_fields [simp]:
  "screen_active (ozterm_create r c) = Main_Screen"
  "alternative_active (ozterm_create r c) = False"
  "saved_cursor_column (ozterm_create r c) = 0"
  "saved_cursor_row (ozterm_create r c) = 0"
  "column_count (ozterm_create r c) = c mod 65536"
  "row_count (ozterm_create r c) = r mod 65536"
  "scroll_top (ozterm_create r c) = 0"
  "scroll_bottom (ozterm_create r c) = r mod 65536 - 1"
  "terminal_color (ozterm_create r c) = 0x0A"
  "scrollback_head (ozterm_create r c) = 0"
  "scrollback_count (ozterm_create r c) = 0"
  "scroll_offset (ozterm_create r c) = 0"
  "write_to_master_function (ozterm_create r c) = False"
  "refresh_function (ozterm_create r c) = False"
  "set_character_function (ozterm_create r c) = False"
  "move_cursor_function (ozterm_create r c) = False"
  "host_events (ozterm_create r c) = []"
  "attr_protected (active (ozterm_create r c)) = False"
  by (simp_all add: ozterm_create_def ozterm_clear_def ozterm_move_cursor_def Let_def
      active_def map_active_def zero_screen_def)

lemma create_cursor [simp]:
  "cursor_row (active (ozterm_create r c)) = 0"
  "cursor_column (active (ozterm_create r c)) = 0"
  by (simp_all add: ozterm_create_def ozterm_clear_def ozterm_move_cursor_def Let_def
      active_def map_active_def zero_screen_def int16_t_def)

lemma active_wtm [simp]: "active (t\<lparr>write_to_master_function := b\<rparr>) = active t"
  by (simp add: active_def split: screen_ref.splits)


subsection \<open>Fields that the operations leave alone\<close>

lemma for_up_invariant_aux:
  "(\<forall>i s. P s \<longrightarrow> P (body i s)) \<longrightarrow> P s \<longrightarrow> P (for_up i n body s)"
proof (induction i n body s rule: for_up.induct)
  case (1 i n body s)
  show ?case
  proof (intro impI)
    assume step: "\<forall>i s. P s \<longrightarrow> P (body i s)" and base: "P s"
    show "P (for_up i n body s)"
    proof (cases "i < n")
      case True
      have "P (body i s)" using step base by simp
      then have "P (for_up (i + 1) n body (body i s))" using "1.IH" [OF True] step by simp
      then show ?thesis using True by (subst for_up.simps) simp
    next
      case False
      then show ?thesis using base by (subst for_up.simps) simp
    qed
  qed
qed

lemma for_up_invariant:
  assumes "\<And>i s. P s \<Longrightarrow> P (body i s)" and "P s"
  shows "P (for_up i n body s)"
  using for_up_invariant_aux [of P body s i n] assms by simp

lemma frame_update [simp]:
  "frame (t\<lparr>host_events := e\<rparr>) = frame t"
  "frame (t\<lparr>scroll_offset := z\<rparr>) = frame t"
  "frame (t\<lparr>scroll_top := a\<rparr>) = frame t"
  "frame (t\<lparr>scroll_bottom := b\<rparr>) = frame t"
  "frame (t\<lparr>scrollback := sb\<rparr>) = frame t"
  "frame (t\<lparr>scrollback_head := h\<rparr>) = frame t"
  "frame (t\<lparr>scrollback_count := n\<rparr>) = frame t"
  "frame (t\<lparr>alternative_active := aa\<rparr>) = frame t"
  "frame (t\<lparr>screen_active := sa\<rparr>) = frame t"
  "frame (map_active f t) = frame t"
  by (simp_all add: frame_def)

lemma frame_call_refresh [simp]: "frame (call_refresh t) = frame t"
  by (simp add: call_refresh_def)

lemma frame_write_to_master [simp]: "frame (write_to_master t d) = frame t"
  by (simp add: write_to_master_def)

lemma frame_move_cursor [simp]: "frame (ozterm_move_cursor t r c) = frame t"
  by (simp add: ozterm_move_cursor_def Let_def)

lemma frame_move_cursor_diff [simp]: "frame (ozterm_move_cursor_diff t r c) = frame t"
  by (simp add: ozterm_move_cursor_diff_def)

lemma frame_scroll_up_region [simp]: "frame (ozterm_scroll_up_region t n) = frame t"
  by (simp add: ozterm_scroll_up_region_def Let_def)

lemma frame_scroll_up [simp]: "frame (ozterm_scroll_up t n) = frame t"
proof -
  have "frame (for_up 0 m (\<lambda>l terminal.
            let rtop = scroll_top terminal + l;
                src = buffer (active terminal);
                slot = scrollback terminal (scrollback_head terminal);
                terminal = terminal\<lparr>scrollback := (scrollback terminal)
                  (scrollback_head terminal :=
                     (\<lambda>x. if 0 \<le> x \<and> x < column_count terminal
                          then src (rtop * column_count terminal + x) else slot x))\<rparr>;
                terminal = terminal\<lparr>scrollback_head :=
                  c_rem (scrollback_head terminal + 1) SCROLLBACK_LINES\<rparr>
            in if scrollback_count terminal < SCROLLBACK_LINES
               then terminal\<lparr>scrollback_count := scrollback_count terminal + 1\<rparr>
               else terminal) t) = frame t" for m
    by (rule for_up_invariant [where P = "\<lambda>s. frame s = frame t"]) (simp_all add: Let_def)
  then show ?thesis
    by (simp add: ozterm_scroll_up_def)
qed

lemma frame_scroll_down_region [simp]: "frame (ozterm_scroll_down_region t n) = frame t"
  by (simp add: ozterm_scroll_down_region_def Let_def)

lemma frame_insert_lines [simp]: "frame (ozterm_insert_lines t r n) = frame t"
  by (simp add: ozterm_insert_lines_def Let_def)

lemma frame_delete_lines [simp]: "frame (ozterm_delete_lines t r n) = frame t"
  by (simp add: ozterm_delete_lines_def Let_def)

lemma frame_clear [simp]: "frame (ozterm_clear t) = frame t"
  by (simp add: ozterm_clear_def Let_def)

lemma frame_line_insert_characters [simp]:
  "frame (ozterm_line_insert_characters t c n) = frame t"
  by (simp add: ozterm_line_insert_characters_def Let_def)

lemma frame_line_delete_characters [simp]:
  "frame (ozterm_line_delete_characters t n) = frame t"
  by (simp add: ozterm_line_delete_characters_def Let_def)

lemma frame_put_cell_and_advance [simp]: "frame (put_cell_and_advance t c) = frame t"
  by (simp add: put_cell_and_advance_def Let_def)

lemma frame_put_character_and_cursor [simp]:
  "frame (ozterm_put_character_and_cursor t c) = frame t"
proof -
  have "frame (for_up 0 n (\<lambda>i terminal. put_cell_and_advance terminal 0x20) t) = frame t" for n
    by (rule for_up_invariant [where P = "\<lambda>s. frame s = frame t"]) simp_all
  then show ?thesis
    by (simp add: ozterm_put_character_and_cursor_def Let_def)
qed

lemma frame_sgr_value [simp]: "frame (sgr_value t v) = frame t"
  by (simp add: sgr_value_def ozterm_reset_attributes_def)

lemma csi_m_Nil [simp]: "csi_m t [] = t"
  by (subst csi_m.simps) simp

lemma csi_m_step:
  assumes "isdigit c \<or> c = 0x3B"
  shows "csi_m t (c # rest) =
         csi_m (sgr_value t (int32_t (min LONG_MAX (digits_value (takeWhile isdigit (c # rest))))))
           (if dropWhile isdigit (c # rest) \<noteq> [] \<and> hd (dropWhile isdigit (c # rest)) = 0x3B
            then tl (dropWhile isdigit (c # rest)) else dropWhile isdigit (c # rest))"
  by (subst csi_m.simps) (simp only: list.case assms if_True Let_def)

lemma csi_m_stop: "\<not> (isdigit c \<or> c = 0x3B) \<Longrightarrow> csi_m t (c # rest) = t"
  by (subst csi_m.simps) simp

lemma frame_csi_m [simp]: "frame (csi_m t p) = frame t"
proof (induction t p rule: csi_m.induct)
  case (1 terminal p)
  show ?case
  proof (cases p)
    case Nil
    then show ?thesis by simp
  next
    case (Cons c rest)
    show ?thesis
    proof (cases "isdigit c \<or> c = 0x3B")
      case True
      have "frame (csi_m (sgr_value terminal (int32_t (min LONG_MAX (digits_value (takeWhile isdigit p)))))
              (if dropWhile isdigit p \<noteq> [] \<and> hd (dropWhile isdigit p) = 0x3B
               then tl (dropWhile isdigit p) else dropWhile isdigit p))
            = frame (sgr_value terminal (int32_t (min LONG_MAX (digits_value (takeWhile isdigit p)))))"
        by (rule "1.IH" [OF Cons True refl refl refl])
      then show ?thesis
        unfolding Cons csi_m_step [OF True] by simp
    next
      case False
      then show ?thesis
        unfolding Cons by (simp add: csi_m_stop)
    qed
  qed
qed

lemma frame_csi_J [simp]: "frame (csi_J t p) = frame t"
  by (simp add: csi_J_def Let_def)

lemma frame_csi_K [simp]: "frame (csi_K t p) = frame t"
  by (simp add: csi_K_def Let_def)

lemma frame_switch [simp]:
  "frame (ozterm_switch_to_alt_screen t) = frame t"
  "frame (ozterm_restore_main_screen t) = frame t"
  by (simp_all add: ozterm_switch_to_alt_screen_def ozterm_restore_main_screen_def)


lemma frame_csi_dispatch [simp]: "frame (fst (csi_dispatch ps t)) = frame t"
  unfolding csi_dispatch_def Let_def
  by (simp only: if_distrib [of "\<lambda>x. frame (fst x)"] fst_conv frame_update
      frame_write_to_master frame_move_cursor frame_move_cursor_diff frame_scroll_up_region
      frame_scroll_down_region frame_insert_lines frame_delete_lines
      frame_line_insert_characters frame_line_delete_characters frame_csi_m frame_csi_J
      frame_csi_K frame_switch if_cancel)

lemma frame_put_character_switch:
  assumes "\<not> (parse_state ps = STATE_ESC \<and> c = 0x37)"
  shows "frame (snd (put_character_switch ps t c)) = frame t"
proof (cases "parse_state ps")
  case STATE_NORMAL
  then show ?thesis
    by (simp add: put_character_switch_def if_distrib [of "\<lambda>x. frame (snd x)"])
next
  case STATE_ESC
  then have "c \<noteq> 0x37" using assms by simp
  then show ?thesis using STATE_ESC
    by (simp add: put_character_switch_def if_distrib [of "\<lambda>x. frame (snd x)"])
next
  case STATE_CSI
  then show ?thesis
    by (simp add: put_character_switch_def Let_def split_beta
        if_distrib [of "\<lambda>x. frame (snd x)"])
next
  case STATE_OSC
  then show ?thesis
    by (simp add: put_character_switch_def if_distrib [of "\<lambda>x. frame (snd x)"])
next
  case STATE_G0
  then show ?thesis by (simp add: put_character_switch_def)
next
  case STATE_G1
  then show ?thesis by (simp add: put_character_switch_def)
next
  case STATE_HASH
  then show ?thesis by (simp add: put_character_switch_def)
qed

lemma frame_put_character:
  "\<not> (parse_state (fst s) = STATE_ESC \<and> c = 0x37) \<Longrightarrow>
   frame (snd (ozterm_put_character s c)) = frame (snd s)"
  by (simp add: ozterm_put_character_def split_beta frame_put_character_switch)

subsection \<open>The parameter buffer\<close>

text \<open>Whatever is fed, \<open>param_buf\<close> holds decimal digits and \<open>';'\<close> only.\<close>

lemma param_buf_digits:
  assumes "\<forall>c\<in>set (param_buf (fst s)). isdigit c \<or> c = 0x3B"
  shows "\<forall>c\<in>set (param_buf (fst (ozterm_put_character s b))). isdigit c \<or> c = 0x3B"
  using assms
  by (cases "parse_state (fst s)")
     (auto simp: ozterm_put_character_def put_character_switch_def split_beta Let_def
        isdigit_def dest: in_set_takeD)


subsection \<open>Loops over the cells\<close>

lemma for_up_stop: "n \<le> i \<Longrightarrow> for_up i n body s = s"
  by (subst for_up.simps) simp

lemma for_up_step: "i < n \<Longrightarrow> for_up i n body s = for_up (i + 1) n body (body i s)"
  by (subst for_up.simps) simp

lemma for_up_fill:
  "for_up i n (\<lambda>x buf. buf(a + x := g (buf (a + x)))) buf k =
     (if a + i \<le> k \<and> k < a + n then g (buf k) else buf k)"
proof (induction "nat (n - i)" arbitrary: i buf)
  case 0
  then have "n \<le> i" by simp
  then show ?case by (auto simp: for_up_stop)
next
  case (Suc m)
  then have lt: "i < n" and m: "m = nat (n - (i + 1))" by simp_all
  show ?case
    unfolding for_up_step [OF lt] Suc.hyps(1) [OF m]
    using lt by auto
qed

lemma for_up_fill_rows:
  assumes "0 \<le> C"
  shows "for_up y m (\<lambda>row. for_up 0 C (\<lambda>col buf.
           buf(row * C + col := g (buf (row * C + col))))) buf k =
         (if y * C \<le> k \<and> k < m * C then g (buf k) else buf k)"
proof (induction "nat (m - y)" arbitrary: y buf)
  case 0
  then have le: "m \<le> y" by simp
  then have "m * C \<le> y * C" using assms by (simp add: mult_right_mono)
  then show ?case using le by (auto simp: for_up_stop)
next
  case (Suc j)
  then have lt: "y < m" and j: "j = nat (m - (y + 1))" by simp_all
  have "(y + 1) * C \<le> m * C" using lt assms by (intro mult_right_mono) auto
  then have b: "y * C + C \<le> m * C" by (simp add: algebra_simps)
  show ?case
    unfolding for_up_step [OF lt] Suc.hyps(1) [OF j] for_up_fill
    using b assms by (auto simp: algebra_simps)
qed

lemma clear_buffer:
  "buffer (active (ozterm_clear t)) k =
     (if 0 \<le> k \<and> k < row_count t * column_count t
      then (buffer (active t) k)\<lparr>character := 0x20, protected := False,
             color := terminal_color t\<rparr>
      else buffer (active t) k)"
  using for_up_fill [where a = 0 and i = 0 and n = "row_count t * column_count t"
      and g = "\<lambda>c. c\<lparr>character := 0x20, protected := False, color := terminal_color t\<rparr>"
      and buf = "buffer (active t)" and k = k]
  by (simp add: ozterm_clear_def Let_def)

lemma create_buffer:
  "buffer (active (ozterm_create r c)) k =
     (if 0 \<le> k \<and> k < (r mod 65536) * (c mod 65536)
      then \<lparr>character = 0x20, color = 0x0A, protected = False\<rparr>
      else zero_cell)"
proof -
  have "buffer (active (ozterm_create r c)) k =
     (if 0 \<le> k \<and> k < (r mod 65536) * (c mod 65536)
      then zero_cell\<lparr>character := 0x20, protected := False, color := 0x0A\<rparr>
      else zero_cell)"
    unfolding ozterm_create_def clear_buffer
    by (simp add: active_def zero_screen_def)
  then show ?thesis by (simp add: zero_cell_def)
qed

subsection \<open>Writing one cell\<close>

lemma move_cursor_column_below:
  assumes "0 < column_count t" "column_count t \<le> 32768"
  shows "0 \<le> cursor_column (active (ozterm_move_cursor t r c))"
    and "cursor_column (active (ozterm_move_cursor t r c)) < column_count t"
  using assms by (simp_all add: ozterm_move_cursor_def Let_def int16_t_id)

lemma column_count_scroll_up [simp]: "column_count (ozterm_scroll_up t n) = column_count t"
  using frame_scroll_up [of t n] by (simp add: frame_def)

lemma row_count_scroll_up [simp]: "row_count (ozterm_scroll_up t n) = row_count t"
  using frame_scroll_up [of t n] by (simp add: frame_def)

lemma put_cell_and_advance_column:
  assumes "0 < column_count t" "column_count t \<le> 32768"
  shows "cursor_column (active (put_cell_and_advance t c)) < column_count t"
proof -
  have "\<exists>T r k. put_cell_and_advance t c = ozterm_move_cursor T r k \<and>
          column_count T = column_count t"
    unfolding put_cell_and_advance_def Let_def
    by (intro exI conjI, rule refl) simp
  then obtain T r k where eq: "put_cell_and_advance t c = ozterm_move_cursor T r k"
    and cc: "column_count T = column_count t" by blast
  show ?thesis
    unfolding eq using move_cursor_column_below(2) [of T r k] assms cc by simp
qed

lemma put_cell_and_advance_no_wrap:
  assumes "cursor_column (active t) < column_count t"
  shows "buffer (active (put_cell_and_advance t c)) =
           (buffer (active t))
             (cursor_row (active t) * column_count t + cursor_column (active t) :=
                (buffer (active t)
                   (cursor_row (active t) * column_count t + cursor_column (active t)))
                \<lparr>character := c, color := terminal_color t,
                  protected := attr_protected (active t)\<rparr>)"
    and "attr_protected (active (put_cell_and_advance t c)) = attr_protected (active t)"
    and "column_count (put_cell_and_advance t c) = column_count t"
    and "row_count (put_cell_and_advance t c) = row_count t"
    and "terminal_color (put_cell_and_advance t c) = terminal_color t"
    and "set_character_function (put_cell_and_advance t c) = set_character_function t"
    and "move_cursor_function (put_cell_and_advance t c) = move_cursor_function t"
    and "scroll_top (put_cell_and_advance t c) = scroll_top t"
    and "scroll_bottom (put_cell_and_advance t c) = scroll_bottom t"
    and "scroll_offset (put_cell_and_advance t c) = scroll_offset t"
    and "screen_active (put_cell_and_advance t c) = screen_active t"
    and "alternative_active (put_cell_and_advance t c) = alternative_active t"
    and "scrollback (put_cell_and_advance t c) = scrollback t"
    and "scrollback_head (put_cell_and_advance t c) = scrollback_head t"
    and "scrollback_count (put_cell_and_advance t c) = scrollback_count t"
  using assms by (simp_all add: put_cell_and_advance_def Let_def)

lemma put_cell_and_advance_cursor:
  assumes "0 \<le> cursor_column (active t)" "cursor_column (active t) < column_count t"
    and "column_count t \<le> 32767"
    and "0 \<le> cursor_row (active t)" "cursor_row (active t) < row_count t"
    and "row_count t \<le> 32768"
  shows "cursor_row (active (put_cell_and_advance t c)) = cursor_row (active t)"
    and "cursor_column (active (put_cell_and_advance t c)) =
           (if cursor_column (active t) + 1 < column_count t
            then cursor_column (active t) + 1 else column_count t - 1)"
  using assms
  by (simp_all add: put_cell_and_advance_def Let_def ozterm_move_cursor_def int16_t_id)


subsection \<open>Scrolling and the line operations, cell by cell\<close>

lemma active_call_refresh [simp]: "active (call_refresh t) = active t"
  by (simp add: call_refresh_def)

lemma cell_blank:
  "c\<lparr>character := a, color := b, protected := p\<rparr> = \<lparr>character = a, color = b, protected = p\<rparr>"
  by (cases c) simp

lemma for_up_copy:
  assumes "a + n \<le> b + i"
  shows "for_up i n (\<lambda>x buf. if \<not> protected (buf (a + x)) then buf(a + x := buf (b + x))
                             else buf) buf k =
         (if a + i \<le> k \<and> k < a + n \<and> \<not> protected (buf k) then buf (k - a + b) else buf k)"
  using assms
proof (induction "nat (n - i)" arbitrary: i buf)
  case 0
  then have "n \<le> i" by simp
  then show ?case by (auto simp: for_up_stop)
next
  case (Suc m)
  then have lt: "i < n" and m: "m = nat (n - (i + 1))" and ab: "a + n \<le> b + (i + 1)"
    by simp_all
  show ?case
    unfolding for_up_step [OF lt] Suc.hyps(1) [OF m ab]
    using lt Suc.prems by (auto simp: add.commute)
qed

lemma for_up_copy_rows:
  assumes "0 \<le> C" "1 \<le> L"
  shows "for_up y m (\<lambda>row. for_up 0 C (\<lambda>col buf.
           if \<not> protected (buf (row * C + col))
           then buf(row * C + col := buf ((row + L) * C + col)) else buf)) buf k =
         (if y * C \<le> k \<and> k < m * C \<and> \<not> protected (buf k) then buf (k + L * C) else buf k)"
proof (induction "nat (m - y)" arbitrary: y buf)
  case 0
  then have le: "m \<le> y" by simp
  then have "m * C \<le> y * C" using assms by (simp add: mult_right_mono)
  then show ?case using le by (auto simp: for_up_stop)
next
  case (Suc j)
  then have lt: "y < m" and j: "j = nat (m - (y + 1))" by simp_all
  have "(y + 1) * C \<le> m * C" using lt assms by (intro mult_right_mono) auto
  then have b: "y * C + C \<le> m * C" by (simp add: algebra_simps)
  have "1 * C \<le> L * C" using assms by (intro mult_right_mono) auto
  then have lc: "C \<le> L * C" by simp
  have src: "y * C + C \<le> (y + L) * C + 0" using lc by (simp add: algebra_simps)
  show ?case
    unfolding for_up_step [OF lt] Suc.hyps(1) [OF j] for_up_copy [OF src]
    using b lc assms by (auto simp: algebra_simps)
qed

lemma scroll_up_region_buffer:
  assumes c0: "0 \<le> column_count t" and reg: "scroll_top t \<le> scroll_bottom t"
  shows "buffer (active (ozterm_scroll_up_region t n)) k =
     (if (scroll_bottom t - region_lines t n + 1) * column_count t \<le> k
         \<and> k < (scroll_bottom t + 1) * column_count t
      then \<lparr>character = 0x20, color = terminal_color t, protected = False\<rparr>
      else if scroll_top t * column_count t \<le> k
         \<and> k < (scroll_bottom t - region_lines t n + 1) * column_count t
         \<and> \<not> protected (buffer (active t) k)
      then buffer (active t) (k + region_lines t n * column_count t)
      else buffer (active t) k)"
proof -
  have l1: "1 \<le> region_lines t n"
    using reg by (simp add: region_lines_def Let_def)
  have "ozterm_scroll_up_region t n = call_refresh (map_active (\<lambda>s. s\<lparr>buffer :=
    for_up (scroll_bottom t - region_lines t n + 1) (scroll_bottom t + 1) (\<lambda>row.
      for_up 0 (column_count t) (\<lambda>col buf.
        buf(row * column_count t + col := (buf (row * column_count t + col))
          \<lparr>character := 0x20, color := terminal_color t, protected := False\<rparr>)))
     (for_up (scroll_top t) (scroll_bottom t - region_lines t n + 1) (\<lambda>y.
        for_up 0 (column_count t) (\<lambda>x buf.
          if \<not> protected (buf (y * column_count t + x))
          then buf(y * column_count t + x := buf ((y + region_lines t n) * column_count t + x))
          else buf)) (buffer (active t)))\<rparr>) t)"
    unfolding ozterm_scroll_up_region_def region_lines_def Let_def by (rule refl)
  then have "buffer (active (ozterm_scroll_up_region t n)) k =
    for_up (scroll_bottom t - region_lines t n + 1) (scroll_bottom t + 1) (\<lambda>row.
      for_up 0 (column_count t) (\<lambda>col buf.
        buf(row * column_count t + col := (buf (row * column_count t + col))
          \<lparr>character := 0x20, color := terminal_color t, protected := False\<rparr>)))
     (for_up (scroll_top t) (scroll_bottom t - region_lines t n + 1) (\<lambda>y.
        for_up 0 (column_count t) (\<lambda>x buf.
          if \<not> protected (buf (y * column_count t + x))
          then buf(y * column_count t + x := buf ((y + region_lines t n) * column_count t + x))
          else buf)) (buffer (active t))) k"
    by simp
  then show ?thesis
    unfolding for_up_fill_rows [OF c0, where g = "\<lambda>c. c\<lparr>character := 0x20,
        color := terminal_color t, protected := False\<rparr>"]
      for_up_copy_rows [OF c0 l1]
    by (simp add: cell_blank)
qed

lemma scroll_down_region_cleared:
  assumes c0: "0 \<le> column_count t" and "scroll_top t * column_count t \<le> k"
    "k < (scroll_top t + region_lines t n) * column_count t"
  shows "buffer (active (ozterm_scroll_down_region t n)) k =
         \<lparr>character = 0x20, color = terminal_color t, protected = False\<rparr>"
proof -
  have "\<exists>X. ozterm_scroll_down_region t n = call_refresh (map_active (\<lambda>s. s\<lparr>buffer :=
    for_up (scroll_top t) (scroll_top t + region_lines t n) (\<lambda>row.
      for_up 0 (column_count t) (\<lambda>col buf.
        buf(row * column_count t + col := (buf (row * column_count t + col))
          \<lparr>character := 0x20, color := terminal_color t, protected := False\<rparr>))) X\<rparr>) t)"
    unfolding ozterm_scroll_down_region_def region_lines_def Let_def
    by (rule exI) (rule refl)
  then obtain X where "buffer (active (ozterm_scroll_down_region t n)) k =
    for_up (scroll_top t) (scroll_top t + region_lines t n) (\<lambda>row.
      for_up 0 (column_count t) (\<lambda>col buf.
        buf(row * column_count t + col := (buf (row * column_count t + col))
          \<lparr>character := 0x20, color := terminal_color t, protected := False\<rparr>))) X k"
    by auto
  then show ?thesis
    unfolding for_up_fill_rows [OF c0, where g = "\<lambda>c. c\<lparr>character := 0x20,
        color := terminal_color t, protected := False\<rparr>"]
    using assms(2,3) by (simp add: cell_blank)
qed

lemma insert_lines_cleared:
  assumes c0: "0 \<le> column_count t" and "0 < n" "scroll_top t \<le> r" "r \<le> scroll_bottom t"
    "r * column_count t \<le> k" "k < (r + 1) * column_count t"
  shows "buffer (active (ozterm_insert_lines t r n)) k =
         \<lparr>character = 0x20, color = terminal_color t, protected = False\<rparr>"
proof -
  define cnt where "cnt = (if n > scroll_bottom t - r + 1 then scroll_bottom t - r + 1 else n)"
  have cnt: "1 \<le> cnt" using assms(2-4) by (simp add: cnt_def)
  have "(r + 1) * column_count t \<le> (r + cnt) * column_count t"
    using cnt c0 by (intro mult_right_mono) auto
  then have k: "k < (r + cnt) * column_count t" using assms(6) by simp
  have "\<exists>X. ozterm_insert_lines t r n = call_refresh (map_active (\<lambda>s. s\<lparr>buffer :=
    for_up r (r + cnt) (\<lambda>row.
      for_up 0 (column_count t) (\<lambda>col buf.
        buf(row * column_count t + col := (buf (row * column_count t + col))
          \<lparr>character := 0x20, color := terminal_color t, protected := False\<rparr>))) X\<rparr>) t)"
    unfolding ozterm_insert_lines_def cnt_def Let_def
    using assms(2-4) by (intro exI) simp
  then obtain X where "buffer (active (ozterm_insert_lines t r n)) k =
    for_up r (r + cnt) (\<lambda>row.
      for_up 0 (column_count t) (\<lambda>col buf.
        buf(row * column_count t + col := (buf (row * column_count t + col))
          \<lparr>character := 0x20, color := terminal_color t, protected := False\<rparr>))) X k"
    by auto
  then show ?thesis
    unfolding for_up_fill_rows [OF c0, where g = "\<lambda>c. c\<lparr>character := 0x20,
        color := terminal_color t, protected := False\<rparr>"]
    using assms(5) k by (simp add: cell_blank)
qed

lemma delete_lines_cleared:
  assumes c0: "0 \<le> column_count t" and "0 < n" "scroll_top t \<le> r" "r \<le> scroll_bottom t"
    "scroll_bottom t * column_count t \<le> k" "k < (scroll_bottom t + 1) * column_count t"
  shows "buffer (active (ozterm_delete_lines t r n)) k =
         \<lparr>character = 0x20, color = terminal_color t, protected = False\<rparr>"
proof -
  define cnt where "cnt = (if n > scroll_bottom t - r + 1 then scroll_bottom t - r + 1 else n)"
  have cnt: "1 \<le> cnt" using assms(2-4) by (simp add: cnt_def)
  have "(scroll_bottom t - cnt + 1) * column_count t \<le> scroll_bottom t * column_count t"
    using cnt c0 by (intro mult_right_mono) auto
  then have k: "(scroll_bottom t - cnt + 1) * column_count t \<le> k" using assms(5) by simp
  have "\<exists>X. ozterm_delete_lines t r n = call_refresh (map_active (\<lambda>s. s\<lparr>buffer :=
    for_up (scroll_bottom t - cnt + 1) (scroll_bottom t + 1) (\<lambda>row.
      for_up 0 (column_count t) (\<lambda>col buf.
        buf(row * column_count t + col := (buf (row * column_count t + col))
          \<lparr>character := 0x20, color := terminal_color t, protected := False\<rparr>))) X\<rparr>) t)"
    unfolding ozterm_delete_lines_def cnt_def Let_def
    using assms(2-4) by (intro exI) simp
  then obtain X where "buffer (active (ozterm_delete_lines t r n)) k =
    for_up (scroll_bottom t - cnt + 1) (scroll_bottom t + 1) (\<lambda>row.
      for_up 0 (column_count t) (\<lambda>col buf.
        buf(row * column_count t + col := (buf (row * column_count t + col))
          \<lparr>character := 0x20, color := terminal_color t, protected := False\<rparr>))) X k"
    by auto
  then show ?thesis
    unfolding for_up_fill_rows [OF c0, where g = "\<lambda>c. c\<lparr>character := 0x20,
        color := terminal_color t, protected := False\<rparr>"]
    using assms(6) k by (simp add: cell_blank)
qed

subsection \<open>Running the parser on concrete bytes\<close>

lemmas feed_defs =
  ozterm_put_character_def put_character_switch_def csi_dispatch_def parser_init_def
  csi_p1_def csi_p2_def atoi_def strtol_def int32_t_def LONG_MAX_def LONG_MIN_def
  digits_value_def isspace_def isdigit_def isgraph_def Let_def

lemmas feed_simps =
  feed_defs ozterm_put_character_and_cursor_def put_cell_and_advance_no_wrap
  put_cell_and_advance_cursor create_buffer csi_m_step csi_m_stop sgr_value_def
  ozterm_reset_attributes_def move_cursor_in_range region_lines_def


subsection \<open>The screen alignment test\<close>

lemma cell_offset_in_range:
  assumes "0 \<le> y" "y < R" "0 \<le> x" "x < (C::int)"
  shows "0 \<le> y * C + x" and "y * C + x < R * C"
proof -
  have c: "0 < C" using assms by simp
  show "0 \<le> y * C + x" using assms c by simp
  have "(y + 1) * C \<le> R * C" using assms c by (intro mult_right_mono) auto
  then show "y * C + x < R * C" using assms by (simp add: algebra_simps)
qed

lemma snap_scroll_offset:
  "(if scroll_offset t > 0 then t\<lparr>scroll_offset := 0\<rparr> else t) =
   t\<lparr>scroll_offset := min (scroll_offset t) 0\<rparr>"
  by (simp add: min_def)

lemma decaln_state:
  assumes "parse_state ps = STATE_NORMAL"
  shows "snd (foldl ozterm_put_character (ps, t) [0x1B, 0x23, 0x38]) =
    (ozterm_move_cursor
       (map_active (\<lambda>s. s\<lparr>buffer :=
          for_up 0 (row_count t) (\<lambda>y.
            for_up 0 (column_count t) (\<lambda>x buf.
              buf(y * column_count t + x :=
                (buf (y * column_count t + x))\<lparr>character := 0x45,
                  color := terminal_color t\<rparr>))) (buffer s)\<rparr>)
          (t\<lparr>scroll_offset := min (scroll_offset t) 0\<rparr>)) 0 0)
       \<lparr>scroll_offset := min (scroll_offset t) 0\<rparr>"
  using assms
  by (simp add: ozterm_put_character_def put_character_switch_def snap_scroll_offset
      min_def)


subsection \<open>C1: a newline on the last row of the scroll region\<close>



lemma scroll_up_region_fields [simp]:
  "screen_active (ozterm_scroll_up_region t n) = screen_active t"
  "alternative_active (ozterm_scroll_up_region t n) = alternative_active t"
  "column_count (ozterm_scroll_up_region t n) = column_count t"
  "row_count (ozterm_scroll_up_region t n) = row_count t"
  "scroll_top (ozterm_scroll_up_region t n) = scroll_top t"
  "scroll_bottom (ozterm_scroll_up_region t n) = scroll_bottom t"
  "terminal_color (ozterm_scroll_up_region t n) = terminal_color t"
  "scrollback (ozterm_scroll_up_region t n) = scrollback t"
  "scrollback_head (ozterm_scroll_up_region t n) = scrollback_head t"
  "scrollback_count (ozterm_scroll_up_region t n) = scrollback_count t"
  "scroll_offset (ozterm_scroll_up_region t n) = scroll_offset t"
  "cursor_row (active (ozterm_scroll_up_region t n)) = cursor_row (active t)"
  "cursor_column (active (ozterm_scroll_up_region t n)) = cursor_column (active t)"
  "attr_protected (active (ozterm_scroll_up_region t n)) = attr_protected (active t)"
  by (simp_all add: ozterm_scroll_up_region_def Let_def call_refresh_def)


lemma active_screen_switch [simp]:
  "active (t\<lparr>alternative_active := a\<rparr>) = active t"
  "active (t\<lparr>screen_active := Alternative_Screen\<rparr>) = screen_alternative t"
  "active (t\<lparr>screen_active := Main_Screen\<rparr>) = screen_main t"
  by (simp_all add: active_def split: screen_ref.splits)

lemma create_screen_alternative [simp]:
  "screen_alternative (ozterm_create r c) = zero_screen"
  by (simp add: ozterm_create_def ozterm_clear_def ozterm_move_cursor_def Let_def
      map_active_def)








subsection \<open>C2: protected cells and the line operations\<close>

text \<open>
  The erasures CSI J and CSI K and the insertion and deletion of characters (CSI @, CSI P)
  leave every protected cell as it is: each write of their loops is guarded by the
  protected bit of the cell written.
\<close>

lemma for_down_stop: "i < n \<Longrightarrow> for_down i n body s = s"
  by (subst for_down.simps) simp

lemma for_down_step: "n \<le> i \<Longrightarrow> for_down i n body s = for_down (i - 1) n body (body i s)"
  by (subst for_down.simps) simp

lemma for_down_invariant:
  assumes "\<And>i s. P s \<Longrightarrow> P (body i s)" and "P s"
  shows "P (for_down i n body s)"
  using assms(2)
proof (induction "nat (i - n + 1)" arbitrary: i s)
  case 0
  then have "i < n" by simp
  then show ?case using "0.prems" by (simp add: for_down_stop)
next
  case (Suc m)
  then have le: "n \<le> i" and m: "m = nat (i - 1 - n + 1)" by simp_all
  have "P (body i s)" by (rule assms(1)) (rule Suc.prems)
  then have "P (for_down (i - 1) n body (body i s))" by (rule Suc.hyps(1) [OF m])
  then show ?case by (simp add: for_down_step [OF le])
qed

lemma erase_cell_keeps:
  "protected v \<Longrightarrow> buf k = v \<Longrightarrow> erase_cell t idx buf k = v"
  by (auto simp: erase_cell_def)

lemma erase_row_keeps:
  assumes "protected v" "buf k = v"
  shows "for_up a b (\<lambda>x. erase_cell t (f x)) buf k = v"
  by (rule for_up_invariant [where P = "\<lambda>s. s k = v"])
     (simp_all add: assms erase_cell_keeps)

lemma erase_rows_keeps:
  assumes "protected v" "buf k = v"
  shows "for_up a b (\<lambda>y. for_up (lo y) (hi y) (\<lambda>x. erase_cell t (f y x))) buf k = v"
  by (rule for_up_invariant [where P = "\<lambda>s. s k = v"])
     (simp_all add: assms erase_row_keeps)

lemma csi_J_keeps_protected:
  assumes "protected (buffer (active t) k)"
  shows "buffer (active (csi_J t p)) k = buffer (active t) k"
  using assms by (simp add: csi_J_def Let_def erase_rows_keeps)

lemma csi_K_keeps_protected:
  assumes "protected (buffer (active t) k)"
  shows "buffer (active (csi_K t p)) k = buffer (active t) k"
  using assms by (simp add: csi_K_def Let_def erase_row_keeps)

text \<open>
  Inserting and deleting characters, for a count that is not negative as an \<open>int16_t\<close>
  (with a negative count the loops index cells outside the cursor's row).
\<close>

lemma line_insert_characters_keeps_protected:
  assumes "protected (buffer (active t) k)" and "0 \<le> int16_t n"
  shows "buffer (active (ozterm_line_insert_characters t c n)) k = buffer (active t) k"
proof -
  have d: "for_down a b (\<lambda>i buf.
         if \<not> protected (buf (base + i)) then
           let src = skip_protected_left buf base x (i - cnt)
           in if src \<ge> x then buf(base + i := buf (base + src))
              else buf(base + i := (buf (base + i))\<lparr>character := 0x20,
                     color := terminal_color t, protected := False\<rparr>)
         else buf) buf k = buffer (active t) k"
    if "buf k = buffer (active t) k" for a b base x cnt buf
    by (rule for_down_invariant [where P = "\<lambda>s. s k = buffer (active t) k"])
       (use assms(1) that in \<open>auto simp: Let_def\<close>)
  have u: "for_up a b (\<lambda>i buf.
         if \<not> protected (buf (base + (x + i)))
         then buf(base + (x + i) := (buf (base + (x + i)))\<lparr>character := 0x20,
                color := terminal_color t, protected := False\<rparr>)
         else buf) buf k = buffer (active t) k"
    if "buf k = buffer (active t) k" for a b base x buf
    by (rule for_up_invariant [where P = "\<lambda>s. s k = buffer (active t) k"])
       (use assms(1) that in auto)
  show ?thesis
    by (simp add: ozterm_line_insert_characters_def Let_def d u)
qed

lemma line_delete_characters_keeps_protected:
  assumes "protected (buffer (active t) k)" and "0 \<le> int16_t n"
  shows "buffer (active (ozterm_line_delete_characters t n)) k = buffer (active t) k"
proof -
  have d: "for_up a b (\<lambda>i buf.
         if \<not> protected (buf (base + i)) then
           let src = skip_protected_right buf base m (i + cnt)
           in if src < m then buf(base + i := buf (base + src))
              else buf(base + i := (buf (base + i))\<lparr>character := 0x20,
                     color := terminal_color t, protected := False\<rparr>)
         else buf) buf k = buffer (active t) k"
    if "buf k = buffer (active t) k" for a b base m cnt buf
    by (rule for_up_invariant [where P = "\<lambda>s. s k = buffer (active t) k"])
       (use assms(1) that in \<open>auto simp: Let_def\<close>)
  have u: "for_up a b (\<lambda>i buf.
         if \<not> protected (buf (base + i))
         then buf(base + i := (buf (base + i))\<lparr>character := 0x20,
                color := terminal_color t, protected := False\<rparr>)
         else buf) buf k = buffer (active t) k"
    if "buf k = buffer (active t) k" for a b base buf
    by (rule for_up_invariant [where P = "\<lambda>s. s k = buffer (active t) k"])
       (use assms(1) that in auto)
  show ?thesis
    by (simp add: ozterm_line_delete_characters_def Let_def d u)
qed

text \<open>
  C2 says that a protected cell is unchanged by scroll-region-up and -down and by the
  insertion and deletion of lines (among others). Each of the four operations shifts
  rows without overwriting a protected destination, but then clears the exposed rows
  without looking at the protected bit. On a fresh terminal of 25 rows and 80 columns: after
  \<open>ESC [ 8 m P\<close> the cell at offset 0 holds a protected \<open>P\<close>, and \<open>ESC [ T\<close> (scroll
  down) or \<open>ESC [ L\<close> (insert line) leaves it blank and unprotected; after
  \<open>ESC [ 8 m ESC [ 25 ; 1 H P\<close> the cell at offset 1920 (row 24, column 0) holds a
  protected \<open>P\<close>, and \<open>ESC [ S\<close> (scroll up) or \<open>ESC [ M\<close> (delete line) leaves it blank
  and unprotected.
\<close>

theorem protected_cell_cleared:
  "buffer (active (snd (foldl ozterm_put_character (parser_init, ozterm_create 25 80)
      [0x1B, 0x5B, 0x38, 0x6D, 0x50]))) 0
     = \<lparr>character = 0x50, color = 0x0A, protected = True\<rparr> \<and>
   buffer (active (snd (foldl ozterm_put_character (parser_init, ozterm_create 25 80)
      [0x1B, 0x5B, 0x38, 0x6D, 0x50, 0x1B, 0x5B, 0x54]))) 0
     = \<lparr>character = 0x20, color = 0x0A, protected = False\<rparr> \<and>
   buffer (active (snd (foldl ozterm_put_character (parser_init, ozterm_create 25 80)
      [0x1B, 0x5B, 0x38, 0x6D, 0x50, 0x1B, 0x5B, 0x4C]))) 0
     = \<lparr>character = 0x20, color = 0x0A, protected = False\<rparr> \<and>
   buffer (active (snd (foldl ozterm_put_character (parser_init, ozterm_create 25 80)
      [0x1B, 0x5B, 0x38, 0x6D, 0x1B, 0x5B, 0x32, 0x35, 0x3B, 0x31, 0x48, 0x50]))) 1920
     = \<lparr>character = 0x50, color = 0x0A, protected = True\<rparr> \<and>
   buffer (active (snd (foldl ozterm_put_character (parser_init, ozterm_create 25 80)
      [0x1B, 0x5B, 0x38, 0x6D, 0x1B, 0x5B, 0x32, 0x35, 0x3B, 0x31, 0x48, 0x50,
       0x1B, 0x5B, 0x53]))) 1920
     = \<lparr>character = 0x20, color = 0x0A, protected = False\<rparr> \<and>
   buffer (active (snd (foldl ozterm_put_character (parser_init, ozterm_create 25 80)
      [0x1B, 0x5B, 0x38, 0x6D, 0x1B, 0x5B, 0x32, 0x35, 0x3B, 0x31, 0x48, 0x50,
       0x1B, 0x5B, 0x4D]))) 1920
     = \<lparr>character = 0x20, color = 0x0A, protected = False\<rparr>"
  by (simp add: feed_simps scroll_down_region_cleared insert_lines_cleared
      delete_lines_cleared scroll_up_region_buffer)

subsection \<open>C3: the pending-wrap position\<close>

text \<open>
  The wrap branch does what it is written for: with the cursor at or past
  \<open>column_count\<close> and not on \<open>scroll_bottom\<close>, the byte lands in column 0 of the next
  row.
\<close>

lemma wrap_branch:
  assumes "column_count t \<le> cursor_column (active t)"
    and "cursor_row (active t) \<noteq> scroll_bottom t"
  shows "buffer (active (put_cell_and_advance t c))
           ((cursor_row (active t) + 1) * column_count t) =
         \<lparr>character = c, color = terminal_color t, protected = attr_protected (active t)\<rparr>"
  using assms by (simp add: put_cell_and_advance_def Let_def cell_blank)

text \<open>
  C3 says that after a printable write at the last column the cursor sits at column
  \<open>column_count\<close>, and that the next printable byte wraps. The write ends with
  \<open>ozterm_move_cursor\<close>, which clamps the column to \<open>column_count - 1\<close>
  (\<open>put_cell_and_advance_column\<close>), so the wrap branch is never entered: on a fresh
  terminal of 25 rows and 80 columns, after \<open>ESC [ 1 ; 80 H A\<close> the \<open>A\<close> is in the last
  column (offset 79) and the cursor is at (0, 79), not at column 80; a following \<open>B\<close>
  overwrites the \<open>A\<close>, the cursor stays at (0, 79) and the first cell of row 1
  (offset 80) stays blank.
\<close>

theorem no_pending_wrap:
  "cursor_row (active (snd (foldl ozterm_put_character (parser_init, ozterm_create 25 80)
      [0x1B, 0x5B, 0x31, 0x3B, 0x38, 0x30, 0x48, 0x41]))) = 0 \<and>
   cursor_column (active (snd (foldl ozterm_put_character (parser_init, ozterm_create 25 80)
      [0x1B, 0x5B, 0x31, 0x3B, 0x38, 0x30, 0x48, 0x41]))) = 79 \<and>
   character (buffer (active (snd (foldl ozterm_put_character (parser_init, ozterm_create 25 80)
      [0x1B, 0x5B, 0x31, 0x3B, 0x38, 0x30, 0x48, 0x41]))) 79) = 0x41 \<and>
   cursor_row (active (snd (foldl ozterm_put_character (parser_init, ozterm_create 25 80)
      [0x1B, 0x5B, 0x31, 0x3B, 0x38, 0x30, 0x48, 0x41, 0x42]))) = 0 \<and>
   cursor_column (active (snd (foldl ozterm_put_character (parser_init, ozterm_create 25 80)
      [0x1B, 0x5B, 0x31, 0x3B, 0x38, 0x30, 0x48, 0x41, 0x42]))) = 79 \<and>
   character (buffer (active (snd (foldl ozterm_put_character (parser_init, ozterm_create 25 80)
      [0x1B, 0x5B, 0x31, 0x3B, 0x38, 0x30, 0x48, 0x41, 0x42]))) 79) = 0x42 \<and>
   character (buffer (active (snd (foldl ozterm_put_character (parser_init, ozterm_create 25 80)
      [0x1B, 0x5B, 0x31, 0x3B, 0x38, 0x30, 0x48, 0x41, 0x42]))) 80) = 0x20"
  by (simp add: feed_simps)

subsection \<open>C4: feeding a buffer\<close>

lemma put_text_loop_eq:
  "nat sz \<le> length data \<Longrightarrow>
   snd (put_text_loop beyond s data i sz outside) =
     foldl ozterm_put_character s
       (takeWhile (\<lambda>b. b \<noteq> 0) (take (nat sz - i) (drop i data)))"
proof (induction beyond s data i sz outside rule: put_text_loop.induct)
  case (1 beyond s data i sz outside)
  show ?case
  proof (cases "read_byte data beyond i \<noteq> 0 \<and> int i < sz")
    case True
    then have i: "i < length data"
      using "1.prems" by linarith
    then have r: "read_byte data beyond i = data ! i"
      by (simp add: read_byte_def)
    have d: "drop i data = data ! i # drop (Suc i) data"
      using i by (simp add: Cons_nth_drop_Suc)
    have n: "nat sz - i = Suc (nat sz - Suc i)"
      using True by linarith
    have tw: "takeWhile (\<lambda>b. b \<noteq> 0) (take (nat sz - i) (drop i data)) =
              data ! i # takeWhile (\<lambda>b. b \<noteq> 0) (take (nat sz - Suc i) (drop (Suc i) data))"
      using True r by (simp add: n d)
    have "snd (put_text_loop beyond (ozterm_put_character s (read_byte data beyond i)) data
                 (Suc i) sz (outside \<or> length data \<le> i)) =
          foldl ozterm_put_character (ozterm_put_character s (read_byte data beyond i))
            (takeWhile (\<lambda>b. b \<noteq> 0) (take (nat sz - Suc i) (drop (Suc i) data)))"
      by (rule "1.IH" [OF True "1.prems"])
    then show ?thesis
      using True by (subst put_text_loop.simps) (simp add: tw r)
  next
    case False
    have "takeWhile (\<lambda>b. b \<noteq> 0) (take (nat sz - i) (drop i data)) = []"
    proof (cases "int i < sz")
      case True
      then have i: "i < length data"
        using "1.prems" by linarith
      then have "data ! i = 0"
        using False True by (simp add: read_byte_def)
      moreover have "drop i data = data ! i # drop (Suc i) data"
        using i by (simp add: Cons_nth_drop_Suc)
      ultimately show ?thesis
        by (cases "nat sz - i") simp_all
    next
      case f: False
      then have "nat sz - i = 0" by linarith
      then show ?thesis by simp
    qed
    then show ?thesis
      using False by (subst put_text_loop.simps) auto
  qed
qed

text \<open>
  When none of the \<open>n\<close> bytes of a buffer of exactly \<open>n\<close> bytes is 0x00, the loop reads
  the byte behind the buffer before it finds \<open>i < size\<close> false.
\<close>

lemma put_text_loop_outside:
  "i \<le> length data \<Longrightarrow> \<forall>b \<in> set (drop i data). b \<noteq> 0 \<Longrightarrow>
   fst (put_text_loop beyond s data i (int (length data)) outside)"
proof (induction "length data - i" arbitrary: i s outside)
  case 0
  then have "i = length data" by simp
  then show ?case
    by (subst put_text_loop.simps) simp
next
  case (Suc k)
  then have i: "i < length data" by simp
  then have "drop i data = data ! i # drop (Suc i) data"
    by (simp add: Cons_nth_drop_Suc)
  then have "data ! i \<in> set (drop i data)"
    by simp
  then have r: "read_byte data beyond i \<noteq> 0"
    using Suc.prems(2) i by (simp add: read_byte_def)
  have "\<forall>b \<in> set (drop (Suc i) data). b \<noteq> 0"
    using Suc.prems(2) set_drop_subset_set_drop [of i "Suc i" data] by auto
  then have "fst (put_text_loop beyond (ozterm_put_character s (read_byte data beyond i)) data
                    (Suc i) (int (length data)) (outside \<or> length data \<le> i))"
    using Suc.hyps(2) i by (intro Suc.hyps(1)) simp_all
  then show ?case
    using r i by (subst put_text_loop.simps) simp
qed

lemma put_text_reads_outside:
  "\<forall>b \<in> set data. b \<noteq> 0 \<Longrightarrow>
   fst (ozterm_have_read_from_master beyond s data (int (length data)))"
  unfolding ozterm_have_read_from_master_def ozterm_put_text_def
  by (rule put_text_loop_outside) simp_all

text \<open>
  C4 says that a single call processes all \<open>n\<close> bytes of the buffer in order, a 0x00 byte
  among them not stopping it. The loop of \<open>ozterm_put_text\<close> is guarded by \<open>*c\<close>: on
  the buffer \<open>41 00 42\<close> with \<open>n = 3\<close> the call does not have the effect of the three bytes
  in order (it ends after the \<open>A\<close>).
\<close>

theorem put_text_whole_buffer_counterexample:
  "snd (ozterm_have_read_from_master (memory_of 0x58) (parser_init, ozterm_create 25 80)
          [0x41, 0x00, 0x42] 3) \<noteq>
   foldl ozterm_put_character (parser_init, ozterm_create 25 80) [0x41, 0x00, 0x42]"
proof
  assume "snd (ozterm_have_read_from_master (memory_of 0x58) (parser_init, ozterm_create 25 80)
            [0x41, 0x00, 0x42] 3) =
          foldl ozterm_put_character (parser_init, ozterm_create 25 80) [0x41, 0x00, 0x42]"
  moreover have "snd (ozterm_have_read_from_master (memory_of 0x58)
            (parser_init, ozterm_create 25 80) [0x41, 0x00, 0x42] 3) =
          foldl ozterm_put_character (parser_init, ozterm_create 25 80) [0x41]"
    unfolding ozterm_have_read_from_master_def ozterm_put_text_def
    by (subst put_text_loop_eq) simp_all
  ultimately have "foldl ozterm_put_character (parser_init, ozterm_create 25 80) [0x41] =
      foldl ozterm_put_character (parser_init, ozterm_create 25 80) [0x41, 0x00, 0x42]"
    by simp
  then have "cursor_column (active (snd (foldl ozterm_put_character
                (parser_init, ozterm_create 25 80) [0x41]))) =
             cursor_column (active (snd (foldl ozterm_put_character
                (parser_init, ozterm_create 25 80) [0x41, 0x00, 0x42])))"
    by (rule arg_cong)
  then show False
    by (simp add: feed_simps)
qed

text \<open>
  C4, amended. For a buffer that holds at least \<open>n\<close> bytes, whatever the memory behind it
  holds, a single call processes, in order, the bytes before the first 0x00 among the
  first \<open>n\<close> bytes (all \<open>n\<close> if none of them is 0x00), each with the effect of
  \<open>ozterm_put_character\<close> on it, and nothing after them.
\<close>

theorem put_text_stops_at_nul:
  assumes "nat sz \<le> length data"
  shows "snd (ozterm_have_read_from_master beyond s data sz) =
         foldl ozterm_put_character s (takeWhile (\<lambda>b. b \<noteq> 0) (take (nat sz) data))"
  unfolding ozterm_have_read_from_master_def ozterm_put_text_def
  using assms by (subst put_text_loop_eq) simp_all

theorem put_text_stops_at_nul_witness:
  "snd (ozterm_have_read_from_master (memory_of 0x58) (parser_init, ozterm_create 25 80)
          [0x41, 0x42, 0x43] 3) =
     foldl ozterm_put_character (parser_init, ozterm_create 25 80) [0x41, 0x42, 0x43] \<and>
   snd (ozterm_have_read_from_master (memory_of 0x58) (parser_init, ozterm_create 25 80)
          [0x41, 0x42, 0x00, 0x43] 4) =
     foldl ozterm_put_character (parser_init, ozterm_create 25 80) [0x41, 0x42]"
  using put_text_stops_at_nul [of 3 "[0x41, 0x42, 0x43]" "memory_of 0x58"
      "(parser_init, ozterm_create 25 80)"]
    put_text_stops_at_nul [of 4 "[0x41, 0x42, 0x00, 0x43]" "memory_of 0x58"
      "(parser_init, ozterm_create 25 80)"]
  by (simp del: foldl_Cons)
subsection \<open>C5: the scroll region set by CSI r\<close>

text \<open>
  C5 says that CSI r never leaves \<open>scroll_top\<close> above \<open>scroll_bottom\<close>. The code checks
  that both parameters lie in 1 .. \<open>row_count\<close> but does not compare them: on a fresh
  terminal of 25 rows, \<open>ESC [ 5 ; 2 r\<close> sets \<open>scroll_top\<close> to 4 and \<open>scroll_bottom\<close> to 1.
\<close>

theorem decstbm_inverted:
  "scroll_top (snd (foldl ozterm_put_character (parser_init, ozterm_create 25 80)
      [0x1B, 0x5B, 0x35, 0x3B, 0x32, 0x72])) = 4 \<and>
   scroll_bottom (snd (foldl ozterm_put_character (parser_init, ozterm_create 25 80)
      [0x1B, 0x5B, 0x35, 0x3B, 0x32, 0x72])) = 1"
  by (simp add: feed_defs)


subsection \<open>C6: a CSI parameter of zero\<close>

text \<open>
  C6 says that a first parameter of zero counts as 1, so that \<open>ESC [ 0 B\<close> moves the
  cursor down by one line as \<open>ESC [ B\<close> does. On a fresh terminal of 25 rows and 80
  columns \<open>ESC [ 0 B\<close> leaves the cursor on row 0, while \<open>ESC [ B\<close> moves it to row 1.
\<close>

theorem csi_zero_parameter:
  "cursor_row (active (snd (foldl ozterm_put_character (parser_init, ozterm_create 25 80)
      [0x1B, 0x5B, 0x30, 0x42]))) = 0 \<and>
   cursor_row (active (snd (foldl ozterm_put_character (parser_init, ozterm_create 25 80)
      [0x1B, 0x5B, 0x42]))) = 1"
  by (simp add: feed_defs ozterm_move_cursor_diff_def move_cursor_in_range int16_t_def)


subsection \<open>C7: the cursor position report\<close>

text \<open>What \<open>%d\<close> prints for a number that is not negative is its decimal numeral.\<close>

lemma dec_digit:
  assumes "d < 10"
  shows "uint (0x30 + of_nat d :: byte) = 48 + int d"
    and "(0x30 :: byte) \<le> 0x30 + of_nat d" and "0x30 + of_nat d \<le> (0x39 :: byte)"
    and "(0x30 + of_nat d :: byte) = 0x30 \<longleftrightarrow> d = 0"
proof -
  from assms have "d \<in> {0, 1, 2, 3, 4, 5, 6, 7, 8, 9}" by auto
  then show "uint (0x30 + of_nat d :: byte) = 48 + int d"
    and "(0x30 :: byte) \<le> 0x30 + of_nat d" and "0x30 + of_nat d \<le> (0x39 :: byte)"
    and "(0x30 + of_nat d :: byte) = 0x30 \<longleftrightarrow> d = 0"
    by auto
qed

lemma dec_nat_digits_range: "list_all (\<lambda>d. 0x30 \<le> d \<and> d \<le> 0x39) (dec_nat n)"
proof (induction n rule: dec_nat.induct)
  case (1 n)
  show ?case
  proof (cases "n < 10")
    case True
    then show ?thesis by (subst dec_nat.simps) (simp add: dec_digit)
  next
    case False
    have "n mod 10 < 10" by simp
    then show ?thesis using "1.IH" [OF False] False
      by (subst dec_nat.simps) (simp add: dec_digit)
  qed
qed

lemma dec_nat_value: "foldl (\<lambda>a d. 10 * a + (uint d - 0x30)) 0 (dec_nat n) = int n"
proof (induction n rule: dec_nat.induct)
  case (1 n)
  show ?case
  proof (cases "n < 10")
    case True
    then show ?thesis by (subst dec_nat.simps) (simp add: dec_digit)
  next
    case False
    have m: "n mod 10 < 10" by simp
    have "foldl (\<lambda>a d. 10 * a + (uint d - 0x30)) 0 (dec_nat n) =
          10 * int (n div 10) + int (n mod 10)"
      using "1.IH" [OF False] False
      by (subst dec_nat.simps) (simp add: dec_digit(1) [OF m])
    then show ?thesis by (simp add: zdiv_int zmod_int)
  qed
qed

lemma dec_nat_leading: "hd (dec_nat n) = 0x30 \<longleftrightarrow> n = 0"
proof (induction n rule: dec_nat.induct)
  case (1 n)
  show ?case
  proof (cases "n < 10")
    case True
    have "hd (dec_nat n) = 0x30 + of_nat n"
      using True by (subst dec_nat.simps) simp
    then show ?thesis
      using dec_digit(4) [OF True] by (simp only:)
  next
    case False
    then show ?thesis using "1.IH" [OF False]
      by (subst dec_nat.simps) (simp add: dec_nat_nonempty)
  qed
qed

lemma printf_d_decimal: "0 \<le> i \<Longrightarrow> decimal_numeral (printf_d i) i"
proof -
  assume i: "0 \<le> i"
  have "hd (dec_nat (nat i)) = 0x30 \<longrightarrow> dec_nat (nat i) = [0x30]"
  proof
    assume "hd (dec_nat (nat i)) = 0x30"
    then have "nat i = 0" by (simp only: dec_nat_leading)
    then show "dec_nat (nat i) = [0x30]" by (simp add: dec_nat.simps)
  qed
  then show ?thesis
    using i by (simp add: decimal_numeral_def printf_d_def dec_nat_nonempty dec_nat_digits_range
        dec_nat_value)
qed

text \<open>A number has no other decimal numeral.\<close>

lemma digit_value_range:
  assumes "(0x30 :: byte) \<le> d" "d \<le> 0x39"
  shows "0 \<le> uint d - 0x30" and "uint d - 0x30 \<le> 9"
    and "d = 0x30 + of_nat (nat (uint d - 0x30))"
    and "d \<noteq> 0x30 \<Longrightarrow> 1 \<le> uint d - 0x30"
proof -
  have u: "48 \<le> uint d" "uint d \<le> 57"
    using assms by (simp_all add: word_le_def)
  then show "0 \<le> uint d - 0x30" and "uint d - 0x30 \<le> 9" by simp_all
  have "nat (uint d - 0x30) < 10" using u by simp
  then have "uint (0x30 + of_nat (nat (uint d - 0x30)) :: byte) = 48 + int (nat (uint d - 0x30))"
    by (rule dec_digit(1))
  also have "\<dots> = uint d" using u by simp
  finally show "d = 0x30 + of_nat (nat (uint d - 0x30))"
    by (simp only: word_uint_eq_iff)
  show "1 \<le> uint d - 0x30" if "d \<noteq> 0x30"
  proof -
    have "uint d \<noteq> uint (0x30 :: byte)" using that by (simp only: word_uint_eq_iff not_False_eq_True)
    then show ?thesis using u by simp
  qed
qed

lemma digits_fold_mono:
  "list_all (\<lambda>d. (0x30 :: byte) \<le> d \<and> d \<le> 0x39) ds \<Longrightarrow> 0 \<le> a \<Longrightarrow>
   a \<le> foldl (\<lambda>a d. 10 * a + (uint d - 0x30)) a ds"
proof (induction ds arbitrary: a)
  case Nil
  then show ?case by simp
next
  case (Cons d ds)
  have dd: "0x30 \<le> d" "d \<le> 0x39" using Cons.prems(1) by simp_all
  have "0 \<le> uint d - 0x30" by (rule digit_value_range(1) [OF dd])
  then have "a \<le> 10 * a + (uint d - 0x30)" using Cons.prems(2) by simp
  moreover have "10 * a + (uint d - 0x30) \<le>
      foldl (\<lambda>a d. 10 * a + (uint d - 0x30)) (10 * a + (uint d - 0x30)) ds"
    using Cons.prems \<open>0 \<le> uint d - 0x30\<close> by (intro Cons.IH) simp_all
  ultimately show ?case by simp
qed

lemma decimal_numeral_unique: "decimal_numeral ds n \<Longrightarrow> ds = printf_d n"
proof (induction ds arbitrary: n rule: rev_induct)
  case Nil
  then show ?case by (simp add: decimal_numeral_def)
next
  case (snoc d xs)
  define v where "v = foldl (\<lambda>a d. 10 * a + (uint d - 0x30)) 0 xs"
  have dg: "list_all (\<lambda>d. (0x30 :: byte) \<le> d \<and> d \<le> 0x39) xs" "0x30 \<le> d" "d \<le> 0x39"
    using snoc.prems by (simp_all add: decimal_numeral_def)
  have n: "n = 10 * v + (uint d - 0x30)"
    using snoc.prems by (simp add: decimal_numeral_def v_def)
  note r = digit_value_range [OF dg(2,3)]
  have v0: "0 \<le> v"
    unfolding v_def using dg(1) by (intro digits_fold_mono) simp_all
  show ?case
  proof (cases "xs = []")
    case True
    then have "n = uint d - 0x30" by (simp add: n v_def)
    then show ?thesis
      using True r(1,2,3) by (simp add: printf_d_def dec_nat.simps)
  next
    case False
    then obtain x r' where xs: "xs = x # r'" by (cases xs) auto
    have hx: "x \<noteq> 0x30"
      using snoc.prems by (simp add: decimal_numeral_def xs)
    have dx: "0x30 \<le> x" "x \<le> 0x39" using dg(1) by (simp_all add: xs)
    have "1 \<le> uint x - 0x30" using digit_value_range(4) [OF dx hx] .
    moreover have "uint x - 0x30 \<le> foldl (\<lambda>a d. 10 * a + (uint d - 0x30)) (uint x - 0x30) r'"
      using dg(1) digit_value_range(1) [OF dx] by (intro digits_fold_mono) (simp_all add: xs)
    ultimately have v1: "1 \<le> v" by (simp add: v_def xs)
    have "decimal_numeral xs v"
      using dg(1) hx by (simp add: decimal_numeral_def v_def xs)
    then have "xs = printf_d v" by (rule snoc.IH)
    then have xsv: "xs = dec_nat (nat v)" using v0 by (simp add: printf_d_def)
    have f: "n div 10 = v" "n mod 10 = uint d - 0x30" "10 \<le> n"
      using v1 r(1,2) unfolding n by presburger+
    have "nat n div 10 = nat (n div 10)" using f(3) by (simp add: nat_div_distrib)
    then have "nat n div 10 = nat v" by (simp only: f(1))
    moreover have "nat n mod 10 = nat (n mod 10)" using f(3) by (simp add: nat_mod_distrib)
    then have "nat n mod 10 = nat (uint d - 0x30)" by (simp only: f(2))
    moreover have "\<not> nat n < 10" using f by arith
    ultimately have d10: "nat n div 10 = nat v" "nat n mod 10 = nat (uint d - 0x30)"
      "\<not> nat n < 10"
      by simp_all
    have "dec_nat (nat n) = dec_nat (nat v) @ [0x30 + of_nat (nat (uint d - 0x30))]"
      by (subst dec_nat.simps) (simp add: d10)
    then have "dec_nat (nat n) = xs @ [d]"
      using xsv r(3) by simp
    moreover have "0 \<le> n" using v0 r(1) unfolding n by simp
    ultimately show ?thesis by (simp add: printf_d_def)
  qed
qed

text \<open>
  C7. With the parser in its ground state and the \<open>write_to_master\<close> callback installed,
  feeding \<open>ESC [ 6 n\<close> calls the callback exactly once, with the bytes
  \<open>ESC [ r ; c R\<close> for the cursor at \<open>(row, col)\<close>, where \<open>r\<close> is the decimal numeral of
  \<open>row + 1\<close> and \<open>c\<close> the decimal numeral of \<open>col + 1\<close>: the log of host calls grows by
  that one call. The cursor fields are \<open>int16_t\<close> values that are not negative.
\<close>

theorem dsr_reply:
  assumes "parse_state ps = STATE_NORMAL"
    and "write_to_master_function t"
    and "0 \<le> cursor_row (active t)" "cursor_row (active t) \<le> 32767"
    and "0 \<le> cursor_column (active t)" "cursor_column (active t) \<le> 32767"
  shows "host_events (snd (foldl ozterm_put_character (ps, t) [0x1B, 0x5B, 0x36, 0x6E])) =
         host_events t @
           [Write_To_Master ([0x1B, 0x5B] @ printf_d (cursor_row (active t) + 1) @ [0x3B]
              @ printf_d (cursor_column (active t) + 1) @ [0x52])] \<and>
         decimal_numeral (printf_d (cursor_row (active t) + 1)) (cursor_row (active t) + 1) \<and>
         decimal_numeral (printf_d (cursor_column (active t) + 1))
           (cursor_column (active t) + 1)"
proof -
  have l1: "length (printf_d (cursor_row (active t) + 1)) \<le> 6"
    using assms by (intro length_printf_d) auto
  have l2: "length (printf_d (cursor_column (active t) + 1)) \<le> 6"
    using assms by (intro length_printf_d) auto
  have "host_events (snd (foldl ozterm_put_character (ps, t) [0x1B, 0x5B, 0x36, 0x6E])) =
         host_events t @
           [Write_To_Master ([0x1B, 0x5B] @ printf_d (cursor_row (active t) + 1) @ [0x3B]
              @ printf_d (cursor_column (active t) + 1) @ [0x52])]"
    using assms(1,2) l1 l2
    by (simp add: ozterm_put_character_def put_character_switch_def csi_dispatch_def
        write_to_master_def str_def Let_def split: prod.splits)
  moreover have "decimal_numeral (printf_d (cursor_row (active t) + 1))
      (cursor_row (active t) + 1)"
    using assms(3) by (intro printf_d_decimal) simp
  moreover have "decimal_numeral (printf_d (cursor_column (active t) + 1))
      (cursor_column (active t) + 1)"
    using assms(5) by (intro printf_d_decimal) simp
  ultimately show ?thesis by simp
qed

text \<open>
  On a screen of 25 rows and 80 columns: with the cursor at \<open>(2, 3)\<close> the reply is
  \<open>ESC [ 3 ; 4 R\<close>, and with the cursor in the last cell, \<open>(24, 79)\<close>, it is
  \<open>ESC [ 2 5 ; 8 0 R\<close>.
\<close>

theorem dsr_reply_witness:
  "host_events (snd (foldl ozterm_put_character
     (foldl ozterm_put_character
        (parser_init, (ozterm_create 25 80)\<lparr>write_to_master_function := True\<rparr>)
        [0x1B, 0x5B, 0x33, 0x3B, 0x34, 0x48])
     [0x1B, 0x5B, 0x36, 0x6E])) =
   [Write_To_Master [0x1B, 0x5B, 0x33, 0x3B, 0x34, 0x52]] \<and>
   host_events (snd (foldl ozterm_put_character
     (foldl ozterm_put_character
        (parser_init, (ozterm_create 25 80)\<lparr>write_to_master_function := True\<rparr>)
        [0x1B, 0x5B, 0x32, 0x35, 0x3B, 0x38, 0x30, 0x48])
     [0x1B, 0x5B, 0x36, 0x6E])) =
   [Write_To_Master [0x1B, 0x5B, 0x32, 0x35, 0x3B, 0x38, 0x30, 0x52]]"
proof -
  let ?t = "ozterm_move_cursor ((ozterm_create 25 80)\<lparr>write_to_master_function := True\<rparr>) 2 3"
  let ?ps = "parser_init\<lparr>param_buf := [0x33, 0x3B, 0x34], seq_buf := [0x33, 0x3B, 0x34, 0x48],
               final_byte := 0x48\<rparr>"
  let ?u = "ozterm_move_cursor ((ozterm_create 25 80)\<lparr>write_to_master_function := True\<rparr>)
              24 79"
  let ?pu = "parser_init\<lparr>param_buf := [0x32, 0x35, 0x3B, 0x38, 0x30],
               seq_buf := [0x32, 0x35, 0x3B, 0x38, 0x30, 0x48], final_byte := 0x48\<rparr>"
  have run: "foldl ozterm_put_character
        (parser_init, (ozterm_create 25 80)\<lparr>write_to_master_function := True\<rparr>)
        [0x1B, 0x5B, 0x33, 0x3B, 0x34, 0x48] = (?ps, ?t)"
    by (simp add: feed_defs)
  have run': "foldl ozterm_put_character
        (parser_init, (ozterm_create 25 80)\<lparr>write_to_master_function := True\<rparr>)
        [0x1B, 0x5B, 0x32, 0x35, 0x3B, 0x38, 0x30, 0x48] = (?pu, ?u)"
    by (simp add: feed_defs)
  have cur: "cursor_row (active ?t) = 2" "cursor_column (active ?t) = 3"
    "cursor_row (active ?u) = 24" "cursor_column (active ?u) = 79"
    by (simp_all add: move_cursor_in_range)
  have ev: "host_events ?t = []" "host_events ?u = []"
    by (simp_all add: move_cursor_events)
  show ?thesis
    unfolding run run'
    using dsr_reply [of ?ps ?t] dsr_reply [of ?pu ?u] cur ev
    by (simp add: parser_init_def printf_d_def dec_nat.simps)
qed
subsection \<open>C8: the encoding of the navigation keys\<close>

lemma send_key_mod_value:
  "(let mod_value = (1::int);
        mod_value = (if m \<inter> {OZTERM_KEYM_LEFTSHIFT, OZTERM_KEYM_RIGHTSHIFT} \<noteq> {}
                     then mod_value + 1 else mod_value);
        mod_value = (if OZTERM_KEYM_ALT \<in> m then mod_value + 2 else mod_value);
        mod_value = (if OZTERM_KEYM_CTRL \<in> m then mod_value + 4 else mod_value)
    in f mod_value) = f (spec_mod_value m)"
  by (auto simp: spec_mod_value_def Let_def)

lemma spec_mod_value_range: "1 \<le> spec_mod_value m" "spec_mod_value m \<le> 8"
  by (simp_all add: spec_mod_value_def)

lemma printf_d_digit: "0 \<le> i \<Longrightarrow> i < 10 \<Longrightarrow> printf_d i = [0x30 + of_nat (nat i)]"
  by (simp add: printf_d_def dec_nat.simps)

lemma write_csi_sequence_spec:
  assumes "1 \<le> mv" "mv \<le> 8" "0 \<le> code" "code < 10"
  shows "write_csi_sequence 16 code final mv =
         (spec_csi code final mv, int (length (spec_csi code final mv)))"
  using assms
  by (simp add: write_csi_sequence_def spec_csi_def snprintf_def printf_d_digit)

text \<open>
  C8. For every modifier mask and every named navigation key (HOME, END, UP, DOWN, LEFT,
  RIGHT, PAGEUP, PAGEDOWN, INSERT, DELETE, with the code and final byte of the spec's
  table), \<open>ozterm_send_key\<close> hands the callback \<open>ESC [ code final\<close> (\<open>ESC [ final\<close>
  when the code is 1) when the modifier value is 1, and \<open>ESC [ code ; mod_value final\<close>
  otherwise, where the modifier value is 1 plus 1 for a shift, 2 for alt and 4 for ctrl.
\<close>

theorem send_key_navigation:
  assumes "spec_navigation key = Some (code, final)"
    and "write_to_master_function t"
  shows "ozterm_send_key t m key =
         t\<lparr>host_events := host_events t @
              [Write_To_Master (spec_csi code final (spec_mod_value m))]\<rparr>"
proof -
  have len: "0 < length (spec_csi code final (spec_mod_value m))"
    "length (spec_csi code final (spec_mod_value m)) \<le> 16"
    using assms(1) spec_mod_value_range [of m]
    by (cases key; simp add: spec_csi_def printf_d_digit)+
  have seq: "send_key_sequence m key =
      (spec_csi code final (spec_mod_value m),
       int (length (spec_csi code final (spec_mod_value m))))"
    unfolding send_key_sequence_def send_key_mod_value
    using assms(1) spec_mod_value_range [of m]
    by (cases key) (simp_all add: write_csi_sequence_spec)
  show ?thesis
    using len assms(2) by (simp add: ozterm_send_key_def seq)
qed

theorem send_key_navigation_witness:
  "host_events (ozterm_send_key ((ozterm_create 25 80)\<lparr>write_to_master_function := True\<rparr>)
      {OZTERM_KEYM_CTRL, OZTERM_KEYM_LEFTSHIFT} OZTERM_KEY_UP) =
   [Write_To_Master [0x1B, 0x5B, 0x31, 0x3B, 0x36, 0x41]]"
  using send_key_navigation [where key = OZTERM_KEY_UP and code = 1 and final = "0x41"
      and t = "(ozterm_create 25 80)\<lparr>write_to_master_function := True\<rparr>"
      and m = "{OZTERM_KEYM_CTRL, OZTERM_KEYM_LEFTSHIFT}"]
  by (simp add: spec_csi_def spec_mod_value_def printf_d_def dec_nat.simps)

subsection \<open>C9: saving and restoring the cursor\<close>

lemma isdigit_dec_digit: "d < 10 \<Longrightarrow> isdigit (0x30 + of_nat d)"
proof -
  assume "d < 10"
  then have "d \<in> {0, 1, 2, 3, 4, 5, 6, 7, 8, 9}" by auto
  then show ?thesis by (auto simp: isdigit_def)
qed

lemma dec_nat_digits: "c \<in> set (dec_nat n) \<Longrightarrow> isdigit c"
proof (induction n arbitrary: c rule: dec_nat.induct)
  case (1 n)
  show ?case
  proof (cases "n < 10")
    case True
    then show ?thesis using "1.prems" by (subst (asm) dec_nat.simps) (simp add: isdigit_dec_digit)
  next
    case False
    have "n mod 10 < 10" by simp
    then have "isdigit (0x30 + of_nat (n mod 10))" by (rule isdigit_dec_digit)
    then show ?thesis using "1.prems" "1.IH" [OF False] False
      by (subst (asm) dec_nat.simps) auto
  qed
qed

lemma csi_params_bytes: "c \<in> set (csi_params ns) \<Longrightarrow> isdigit c \<or> c = 0x3B"
  by (induction ns rule: csi_params.induct) (auto dest: dec_nat_digits)

lemma parse_state_normal_step:
  assumes "parse_state (fst s) = STATE_NORMAL"
  shows "parse_state (fst (ozterm_put_character s c)) =
         (if c = 0x1B then STATE_ESC else STATE_NORMAL)"
  using assms by (simp add: ozterm_put_character_def put_character_switch_def split_beta)

lemma parse_state_esc_step:
  assumes "parse_state (fst s) = STATE_ESC"
  shows "parse_state (fst (ozterm_put_character s c)) =
         (if c = 0x5B then STATE_CSI else if c = 0x5D then STATE_OSC
          else if c = 0x28 then STATE_G0 else if c = 0x29 then STATE_G1
          else if c = 0x23 then STATE_HASH else STATE_NORMAL)"
  using assms by (simp add: ozterm_put_character_def put_character_switch_def split_beta)

lemma parse_state_csi_param:
  assumes "parse_state (fst s) = STATE_CSI" "isdigit c \<or> c = 0x3B"
  shows "parse_state (fst (ozterm_put_character s c)) = STATE_CSI"
  using assms
  by (auto simp: ozterm_put_character_def put_character_switch_def split_beta Let_def
      isdigit_def)

lemma parse_state_csi_final:
  assumes "parse_state (fst s) = STATE_CSI"
  shows "parse_state (fst (ozterm_put_character s (final_byte_of f))) = STATE_NORMAL"
  using assms
  by (cases f)
     (simp_all add: ozterm_put_character_def put_character_switch_def split_beta Let_def)

lemma csi_params_run:
  assumes "parse_state (fst s) = STATE_CSI" "\<forall>c\<in>set bs. isdigit c \<or> c = 0x3B"
  shows "parse_state (fst (foldl ozterm_put_character s bs)) = STATE_CSI \<and>
         frame (snd (foldl ozterm_put_character s bs)) = frame (snd s)"
  using assms
proof (induction bs arbitrary: s)
  case Nil
  then show ?case by simp
next
  case (Cons b bs)
  have st: "parse_state (fst (ozterm_put_character s b)) = STATE_CSI"
    using Cons.prems by (intro parse_state_csi_param) auto
  have fr: "frame (snd (ozterm_put_character s b)) = frame (snd s)"
    using Cons.prems by (intro frame_put_character) auto
  show ?case
    using Cons.IH [OF st] Cons.prems(2) fr by simp
qed

lemma motion_run:
  assumes "parse_state (fst s) = STATE_NORMAL"
  shows "parse_state (fst (foldl ozterm_put_character s (motion_bytes m))) = STATE_NORMAL \<and>
         frame (snd (foldl ozterm_put_character s (motion_bytes m))) = frame (snd s)"
proof (cases m)
  case (Csi_Motion ns f)
  let ?s1 = "ozterm_put_character s 0x1B"
  let ?s2 = "ozterm_put_character ?s1 0x5B"
  let ?s3 = "foldl ozterm_put_character ?s2 (csi_params ns)"
  have p1: "parse_state (fst ?s1) = STATE_ESC" and f1: "frame (snd ?s1) = frame (snd s)"
    using assms by (simp_all add: parse_state_normal_step frame_put_character)
  have p2: "parse_state (fst ?s2) = STATE_CSI" and f2: "frame (snd ?s2) = frame (snd s)"
    using p1 f1 by (simp_all add: parse_state_esc_step frame_put_character)
  have r3: "parse_state (fst ?s3) = STATE_CSI \<and> frame (snd ?s3) = frame (snd ?s2)"
    by (rule csi_params_run [OF p2]) (auto dest: csi_params_bytes)
  have p4: "parse_state (fst (ozterm_put_character ?s3 (final_byte_of f))) = STATE_NORMAL"
    using r3 by (intro parse_state_csi_final) simp
  have f4: "frame (snd (ozterm_put_character ?s3 (final_byte_of f))) = frame (snd ?s3)"
    using r3 by (intro frame_put_character) simp
  show ?thesis
    using p4 f4 r3 f2 by (simp add: Csi_Motion)
next
  case Index
  then show ?thesis
    using assms
    by (simp add: parse_state_normal_step parse_state_esc_step frame_put_character)
next
  case Next_Line
  then show ?thesis
    using assms
    by (simp add: parse_state_normal_step parse_state_esc_step frame_put_character)
next
  case Carriage_Return
  then show ?thesis
    using assms by (simp add: parse_state_normal_step frame_put_character)
next
  case Line_Feed
  then show ?thesis
    using assms by (simp add: parse_state_normal_step frame_put_character)
next
  case Backspace
  then show ?thesis
    using assms by (simp add: parse_state_normal_step frame_put_character)
next
  case Tab
  then show ?thesis
    using assms by (simp add: parse_state_normal_step frame_put_character)
qed

lemma motions_run:
  assumes "parse_state (fst s) = STATE_NORMAL"
  shows "parse_state (fst (foldl ozterm_put_character s (concat (map motion_bytes ms))))
           = STATE_NORMAL \<and>
         frame (snd (foldl ozterm_put_character s (concat (map motion_bytes ms))))
           = frame (snd s)"
  using assms
proof (induction ms arbitrary: s)
  case Nil
  then show ?case by simp
next
  case (Cons m ms)
  note r = motion_run [OF Cons.prems, of m]
  show ?case
    using Cons.IH [OF r [THEN conjunct1]] r by simp
qed

lemma save_cursor_state:
  assumes "parse_state ps = STATE_NORMAL"
  shows "parse_state (fst (foldl ozterm_put_character (ps, t) [0x1B, 0x37])) = STATE_NORMAL"
    and "frame (snd (foldl ozterm_put_character (ps, t) [0x1B, 0x37])) =
           (cursor_row (active t), cursor_column (active t), row_count t, column_count t)"
  using assms
  by (simp_all add: ozterm_put_character_def put_character_switch_def snap_scroll_offset
      frame_def)

lemma restore_cursor_state:
  assumes "parse_state (fst s) = STATE_NORMAL"
    and "0 \<le> saved_cursor_row (snd s)" "saved_cursor_row (snd s) < row_count (snd s)"
      "saved_cursor_row (snd s) < 32768"
    and "0 \<le> saved_cursor_column (snd s)" "saved_cursor_column (snd s) < column_count (snd s)"
      "saved_cursor_column (snd s) < 32768"
  shows "cursor_row (active (snd (foldl ozterm_put_character s [0x1B, 0x38]))) =
           saved_cursor_row (snd s)"
    and "cursor_column (active (snd (foldl ozterm_put_character s [0x1B, 0x38]))) =
           saved_cursor_column (snd s)"
  using assms
  by (simp_all add: ozterm_put_character_def put_character_switch_def snap_scroll_offset
      move_cursor_in_range)

text \<open>
  C9. From a parser in its ground state and a cursor inside the screen, \<open>ESC 7\<close>, then any
  sequence of cursor motions (\<open>motion_bytes\<close>: arrows, cursor position, line and column
  position with any parameters, index, next line, carriage return, line feed, backspace,
  tab), then \<open>ESC 8\<close> leaves the cursor of the active screen at the row and column it had
  when \<open>ESC 7\<close> was processed.
\<close>

theorem save_restore_cursor:
  assumes "parse_state ps = STATE_NORMAL"
    and "0 \<le> cursor_row (active t)" "cursor_row (active t) < row_count t"
      "cursor_row (active t) < 32768"
    and "0 \<le> cursor_column (active t)" "cursor_column (active t) < column_count t"
      "cursor_column (active t) < 32768"
  shows "cursor_row (active (snd (foldl ozterm_put_character (ps, t)
            ([0x1B, 0x37] @ concat (map motion_bytes ms) @ [0x1B, 0x38])))) =
           cursor_row (active t) \<and>
         cursor_column (active (snd (foldl ozterm_put_character (ps, t)
            ([0x1B, 0x37] @ concat (map motion_bytes ms) @ [0x1B, 0x38])))) =
           cursor_column (active t)"
proof -
  define s1 where "s1 = foldl ozterm_put_character (ps, t) [0x1B, 0x37]"
  define s2 where "s2 = foldl ozterm_put_character s1 (concat (map motion_bytes ms))"
  have p1: "parse_state (fst s1) = STATE_NORMAL"
    and f1: "frame (snd s1) =
           (cursor_row (active t), cursor_column (active t), row_count t, column_count t)"
    unfolding s1_def by (rule save_cursor_state [OF assms(1)])+
  have r2: "parse_state (fst s2) = STATE_NORMAL \<and> frame (snd s2) = frame (snd s1)"
    unfolding s2_def by (rule motions_run [OF p1])
  then have f2: "saved_cursor_row (snd s2) = cursor_row (active t)"
    "saved_cursor_column (snd s2) = cursor_column (active t)"
    "row_count (snd s2) = row_count t" "column_count (snd s2) = column_count t"
    using f1 by (simp_all add: frame_def)
  have "cursor_row (active (snd (foldl ozterm_put_character s2 [0x1B, 0x38]))) =
          saved_cursor_row (snd s2)"
    by (rule restore_cursor_state(1)) (use r2 f2 assms in simp_all)
  moreover have "cursor_column (active (snd (foldl ozterm_put_character s2 [0x1B, 0x38]))) =
          saved_cursor_column (snd s2)"
    by (rule restore_cursor_state(2)) (use r2 f2 assms in simp_all)
  moreover have "foldl ozterm_put_character (ps, t)
            ([0x1B, 0x37] @ concat (map motion_bytes ms) @ [0x1B, 0x38]) =
          foldl ozterm_put_character s2 [0x1B, 0x38]"
    unfolding s2_def s1_def by (simp only: foldl_append)
  ultimately show ?thesis
    using f2 by simp
qed

theorem save_restore_cursor_witness:
  "cursor_row (active (snd (foldl ozterm_put_character
      (foldl ozterm_put_character (parser_init, ozterm_create 25 80)
         [0x1B, 0x5B, 0x35, 0x3B, 0x31, 0x30, 0x48])
      ([0x1B, 0x37] @ concat (map motion_bytes
          [Csi_Motion [3] Cursor_Down, Csi_Motion [20, 70] Cursor_Position, Carriage_Return,
           Line_Feed, Index, Next_Line, Csi_Motion [] Cursor_Up, Backspace, Tab])
        @ [0x1B, 0x38])))) = 4 \<and>
   cursor_column (active (snd (foldl ozterm_put_character
      (foldl ozterm_put_character (parser_init, ozterm_create 25 80)
         [0x1B, 0x5B, 0x35, 0x3B, 0x31, 0x30, 0x48])
      ([0x1B, 0x37] @ concat (map motion_bytes
          [Csi_Motion [3] Cursor_Down, Csi_Motion [20, 70] Cursor_Position, Carriage_Return,
           Line_Feed, Index, Next_Line, Csi_Motion [] Cursor_Up, Backspace, Tab])
        @ [0x1B, 0x38])))) = 9"
proof -
  define s0 where "s0 = foldl ozterm_put_character (parser_init, ozterm_create 25 80)
         [0x1B, 0x5B, 0x35, 0x3B, 0x31, 0x30, 0x48]"
  have st: "parse_state (fst s0) = STATE_NORMAL"
    "cursor_row (active (snd s0)) = 4" "cursor_column (active (snd s0)) = 9"
    "row_count (snd s0) = 25" "column_count (snd s0) = 80"
    by (simp_all add: s0_def feed_simps)
  have pre: "parse_state (fst s0) = STATE_NORMAL"
    "0 \<le> cursor_row (active (snd s0))" "cursor_row (active (snd s0)) < row_count (snd s0)"
    "cursor_row (active (snd s0)) < 32768"
    "0 \<le> cursor_column (active (snd s0))"
    "cursor_column (active (snd s0)) < column_count (snd s0)"
    "cursor_column (active (snd s0)) < 32768"
    by (simp_all add: st)
  show ?thesis
    using save_restore_cursor [OF pre] st
    unfolding s0_def [symmetric]
    by (simp del: foldl_Cons foldl_append concat.simps list.map motion_bytes.simps)
qed

subsection \<open>C10: DECALN\<close>

text \<open>
  C10. Fed to a parser in its ground state, \<open>ESC # 8\<close> leaves every cell of the active screen
  (row \<open>y\<close> below \<open>row_count\<close>, column \<open>x\<close> below \<open>column_count\<close>) with the character
  \<open>E\<close> and the terminal's current color, protected cells included, leaves the protected bit
  of every cell as it was, and puts the cursor at (0, 0).
\<close>

theorem decaln_fills_screen:
  assumes "parse_state ps = STATE_NORMAL"
    and "0 \<le> row_count t" "0 \<le> column_count t"
  shows "(\<forall>y x. 0 \<le> y \<and> y < row_count t \<and> 0 \<le> x \<and> x < column_count t \<longrightarrow>
           character (buffer (active (snd (foldl ozterm_put_character (ps, t)
             [0x1B, 0x23, 0x38]))) (y * column_count t + x)) = 0x45 \<and>
           color (buffer (active (snd (foldl ozterm_put_character (ps, t)
             [0x1B, 0x23, 0x38]))) (y * column_count t + x)) = terminal_color t \<and>
           protected (buffer (active (snd (foldl ozterm_put_character (ps, t)
             [0x1B, 0x23, 0x38]))) (y * column_count t + x))
             = protected (buffer (active t) (y * column_count t + x))) \<and>
         cursor_row (active (snd (foldl ozterm_put_character (ps, t)
             [0x1B, 0x23, 0x38]))) = 0 \<and>
         cursor_column (active (snd (foldl ozterm_put_character (ps, t)
             [0x1B, 0x23, 0x38]))) = 0"
proof (intro conjI)
  have buf: "buffer (active (snd (foldl ozterm_put_character (ps, t) [0x1B, 0x23, 0x38]))) k =
     (if 0 * column_count t \<le> k \<and> k < row_count t * column_count t
      then (buffer (active t) k)\<lparr>character := 0x45, color := terminal_color t\<rparr>
      else buffer (active t) k)" for k
    unfolding decaln_state [OF assms(1)]
    using for_up_fill_rows [OF assms(3), where g = "\<lambda>c. c\<lparr>character := 0x45,
        color := terminal_color t\<rparr>" and y = 0 and m = "row_count t"
        and buf = "buffer (active t)" and k = k]
    by simp
  show "\<forall>y x. 0 \<le> y \<and> y < row_count t \<and> 0 \<le> x \<and> x < column_count t \<longrightarrow>
           character (buffer (active (snd (foldl ozterm_put_character (ps, t)
             [0x1B, 0x23, 0x38]))) (y * column_count t + x)) = 0x45 \<and>
           color (buffer (active (snd (foldl ozterm_put_character (ps, t)
             [0x1B, 0x23, 0x38]))) (y * column_count t + x)) = terminal_color t \<and>
           protected (buffer (active (snd (foldl ozterm_put_character (ps, t)
             [0x1B, 0x23, 0x38]))) (y * column_count t + x))
             = protected (buffer (active t) (y * column_count t + x))"
    unfolding buf using cell_offset_in_range by simp
  show "cursor_row (active (snd (foldl ozterm_put_character (ps, t)
             [0x1B, 0x23, 0x38]))) = 0"
    unfolding decaln_state [OF assms(1)]
    using assms(2) by (simp add: ozterm_move_cursor_def Let_def int16_t_def)
  show "cursor_column (active (snd (foldl ozterm_put_character (ps, t)
             [0x1B, 0x23, 0x38]))) = 0"
    unfolding decaln_state [OF assms(1)]
    using assms(3) by (simp add: ozterm_move_cursor_def Let_def int16_t_def)
qed

theorem decaln_fills_screen_witness:
  "character (buffer (active (snd (foldl ozterm_put_character
      (foldl ozterm_put_character (parser_init, ozterm_create 25 80)
         [0x1B, 0x5B, 0x38, 0x6D, 0x50])
      [0x1B, 0x23, 0x38]))) 0) = 0x45 \<and>
   color (buffer (active (snd (foldl ozterm_put_character
      (foldl ozterm_put_character (parser_init, ozterm_create 25 80)
         [0x1B, 0x5B, 0x38, 0x6D, 0x50])
      [0x1B, 0x23, 0x38]))) 0) = 0x0A \<and>
   protected (buffer (active (snd (foldl ozterm_put_character
      (foldl ozterm_put_character (parser_init, ozterm_create 25 80)
         [0x1B, 0x5B, 0x38, 0x6D, 0x50])
      [0x1B, 0x23, 0x38]))) 0) \<and>
   cursor_row (active (snd (foldl ozterm_put_character
      (foldl ozterm_put_character (parser_init, ozterm_create 25 80)
         [0x1B, 0x5B, 0x38, 0x6D, 0x50])
      [0x1B, 0x23, 0x38]))) = 0 \<and>
   cursor_column (active (snd (foldl ozterm_put_character
      (foldl ozterm_put_character (parser_init, ozterm_create 25 80)
         [0x1B, 0x5B, 0x38, 0x6D, 0x50])
      [0x1B, 0x23, 0x38]))) = 0"
proof -
  define s1 where "s1 = foldl ozterm_put_character (parser_init, ozterm_create 25 80)
         [0x1B, 0x5B, 0x38, 0x6D, 0x50]"
  have pre: "parse_state (fst s1) = STATE_NORMAL" "0 \<le> row_count (snd s1)"
    "0 \<le> column_count (snd s1)"
    by (simp_all add: s1_def feed_simps)
  have st: "column_count (snd s1) = 80" "row_count (snd s1) = 25"
    "terminal_color (snd s1) = 0x0A" "protected (buffer (active (snd s1)) 0)"
    by (simp_all add: s1_def feed_simps)
  note d = decaln_fills_screen [OF pre]
  show ?thesis
    using d [THEN conjunct1, rule_format, of 0 0] d [THEN conjunct2] st
    unfolding s1_def [symmetric]
    by (simp del: foldl_Cons foldl_Nil)
qed


end
